theory Spec2Isabelle
  imports Complex_Main "HOL-Library.Char_ord"
begin

section \<open>Character-level tweet generator (notebooks/workshop-5/tweet\_generator.ipynb)\<close>

text \<open>
  A shallow embedding of the notebook's Python. Strings are \<open>string\<close>; the code only
  compares characters for equality and sorts them, and \<open>char\<close> is ordered by code point
  as Python's \<open>sort\<close> orders single characters. Python integers that the caller
  chooses (\<open>seq_len\<close>, \<open>length\<close>) are \<open>int\<close>; indices the code computes are \<open>nat\<close>.
  Tensors hold real numbers.
  Every exception the code can raise is a value of \<open>error\<close>, and a function that can
  raise returns \<open>error + 'a\<close> with \<open>Inl\<close> for the exception.
\<close>

subsection \<open>Exceptions\<close>

datatype key = CharKey char | IntKey nat

datatype error =
    KeyError key      \<comment> \<open>a dict lookup \<open>d[k]\<close> on a missing key\<close>
  | IndexError        \<comment> \<open>an index out of range\<close>
  | ValueError        \<comment> \<open>\<open>range\<close> with step zero\<close>
  | AssertionError    \<comment> \<open>a failed \<open>assert\<close>\<close>
  | AttributeError    \<comment> \<open>\<open>.item()\<close> on a Python int\<close>
  | RuntimeError      \<comment> \<open>raised by the tensor library (sizes that do not fit, bad distribution)\<close>

text \<open>A list comprehension or loop whose body may raise: the first exception ends it.\<close>

fun mapE :: "('a \<Rightarrow> error + 'b) \<Rightarrow> 'a list \<Rightarrow> error + 'b list" where
  "mapE f [] = Inr []"
| "mapE f (x # xs) =
     (case f x of
        Inl e \<Rightarrow> Inl e
      | Inr y \<Rightarrow> (case mapE f xs of Inl e \<Rightarrow> Inl e | Inr ys \<Rightarrow> Inr (y # ys)))"

subsection \<open>Dictionaries\<close>

text \<open>
  \<open>dict(pairs)\<close> and a dict comprehension insert the pairs in order, a later pair
  overwriting an earlier one with the same key. \<open>d[k]\<close> raises KeyError on a missing key.
\<close>

definition dict_of :: "('k \<times> 'v) list \<Rightarrow> ('k \<rightharpoonup> 'v)" where
  "dict_of ps = fold (\<lambda>(k, v) m. m(k \<mapsto> v)) ps Map.empty"

definition lookup_char :: "(char \<rightharpoonup> nat) \<Rightarrow> char \<Rightarrow> error + nat" where
  "lookup_char d c = (case d c of None \<Rightarrow> Inl (KeyError (CharKey c)) | Some i \<Rightarrow> Inr i)"

definition lookup_int :: "(nat \<rightharpoonup> char) \<Rightarrow> nat \<Rightarrow> error + char" where
  "lookup_int d i = (case d i of None \<Rightarrow> Inl (KeyError (IntKey i)) | Some c \<Rightarrow> Inr c)"

subsection \<open>TweetDataset\<close>

text \<open>
  The object built by \<open>TweetDataset.__init__\<close>. \<open>data\<close> is the \<open>tweet\<close> column of the
  CSV file, in row order; reading the file is outside the model.
\<close>

record TweetDataset =
  seq_len :: int
  data :: "string list"
  chars :: "char list"
  vocab_size :: nat
  int2char :: "nat \<rightharpoonup> char"
  char2int :: "char \<rightharpoonup> nat"
  sequences :: "(string \<times> string) list"

text \<open>
  \<open>_get_unique_chars\<close>: every character of every tweet is added to a set; the set is
  turned into a list (in whatever order the set iterates) and the list is sorted.
\<close>

definition get_unique_chars :: "string list \<Rightarrow> char list" where
  "get_unique_chars tweets =
     sorted_list_of_set (fold (\<lambda>tweet cs. fold insert tweet cs) tweets {})"

text \<open>
  \<open>range(0, n, step)\<close> for \<open>n = len(tweet)\<close>: ValueError for step zero, empty for a
  negative step, and \<open>0, step, 2*step, ...\<close> below \<open>n\<close> otherwise.
\<close>

definition py_range :: "nat \<Rightarrow> int \<Rightarrow> error + nat list" where
  "py_range n step =
     (if step = 0 then Inl ValueError
      else if step < 0 then Inr []
      else Inr (map (\<lambda>j. j * nat step) [0..<(n + nat step - 1) div nat step]))"

text \<open>
  The body of the inner loop of \<open>_create_sequences\<close> at index \<open>i\<close>: slice
  \<open>tweet[i:i+seq_len+1]\<close>, pad with spaces, assert the length.
\<close>

definition window :: "int \<Rightarrow> string \<Rightarrow> nat \<Rightarrow> error + string" where
  "window sl tweet i =
     (let seq = take (nat (sl + 1)) (drop i tweet);
          seq = (if int (length seq) < sl + 1
                 then seq @ replicate (nat (sl + 1 - int (length seq))) CHR '' ''
                 else seq)
      in if int (length seq) = sl + 1 then Inr seq else Inl AssertionError)"

definition tweet_seqs :: "int \<Rightarrow> string \<Rightarrow> error + string list" where
  "tweet_seqs sl tweet =
     (case py_range (length tweet) (sl + 1) of
        Inl e \<Rightarrow> Inl e
      | Inr is \<Rightarrow> mapE (window sl tweet) is)"

text \<open>
  \<open>_create_sequences\<close>: the padded slices of all tweets in order, then the pairs
  \<open>(seq[:-1], seq[1:])\<close>.
\<close>

definition create_sequences :: "int \<Rightarrow> string list \<Rightarrow> error + (string \<times> string) list" where
  "create_sequences sl tweets =
     (case mapE (tweet_seqs sl) tweets of
        Inl e \<Rightarrow> Inl e
      | Inr seqss \<Rightarrow>
          (let seqs = concat seqss;
               inputs = map butlast seqs;
               targets = map tl seqs
           in Inr (zip inputs targets)))"

text \<open>\<open>TweetDataset.__init__\<close>, from the loaded tweets.\<close>

definition TweetDataset_init :: "string list \<Rightarrow> int \<Rightarrow> error + TweetDataset" where
  "TweetDataset_init tweets sl =
     (let cs = get_unique_chars tweets;
          i2c = dict_of (enumerate 0 cs);
          c2i = dict_of (map (\<lambda>(i, c). (c, i)) (enumerate 0 cs))
      in case create_sequences sl tweets of
           Inl e \<Rightarrow> Inl e
         | Inr sqs \<Rightarrow>
             Inr \<lparr> seq_len = sl, data = tweets, chars = cs, vocab_size = length cs,
                   int2char = i2c, char2int = c2i, sequences = sqs \<rparr>)"

text \<open>\<open>_encode_sequence\<close>: \<open>[self.char2int[c] for c in seq]\<close>.\<close>

definition encode_sequence :: "TweetDataset \<Rightarrow> string \<Rightarrow> error + nat list" where
  "encode_sequence ds seq = mapE (lookup_char (char2int ds)) seq"

text \<open>
  \<open>_one_hot_sequence\<close>: for each index \<open>s\<close> a vector of \<open>vocab_size\<close> zeros with
  \<open>vec[s] = 1\<close>; the assignment raises IndexError when \<open>s\<close> is not below \<open>vocab_size\<close>
  (the indices are never negative here).
\<close>

definition one_hot :: "nat \<Rightarrow> nat \<Rightarrow> error + int list" where
  "one_hot vs s = (if s < vs then Inr ((replicate vs 0)[s := 1]) else Inl IndexError)"

definition one_hot_sequence :: "nat list \<Rightarrow> nat \<Rightarrow> error + int list list" where
  "one_hot_sequence seq vs = mapE (one_hot vs) seq"

text \<open>\<open>torch.Tensor(...)\<close> of a list of integers: the same numbers as floats.\<close>

definition tensor :: "int list \<Rightarrow> real list" where
  "tensor v = map real_of_int v"

subsection \<open>The recurrent model\<close>

text \<open>
  Tensors are nested lists: an input batch is \<open>[batch, seq, input_size]\<close>, a hidden
  state is \<open>[n_layers, batch, hidden_size]\<close>. The two library modules of class \<open>GRU\<close>
  are fields of the record, as functions: \<open>gru\<close> is \<open>nn.GRU\<close> with its weights
  (from an input batch and a hidden state to the per-step outputs, of shape
  \<open>[batch, seq, hidden_size]\<close>, and the new hidden state), \<open>fc\<close> is \<open>nn.Linear\<close> with
  its weights, applied to one row.
\<close>

type_synonym tensor3 = "real list list list"

record GRU =
  input_size :: nat
  hidden_size :: nat
  output_size :: nat
  n_layers :: nat
  gru :: "tensor3 \<Rightarrow> tensor3 \<Rightarrow> tensor3 \<times> tensor3"
  fc :: "real list \<Rightarrow> real list"

text \<open>
  \<open>GRU.forward\<close>. \<open>nn.GRU\<close> raises when the last dimension of \<open>x\<close> is not
  \<open>input_size\<close>; \<open>view(-1, hidden_size)\<close> lists the output rows of all batch entries
  and steps, and \<open>fc\<close> maps each row.
\<close>

definition forward :: "GRU \<Rightarrow> tensor3 \<Rightarrow> tensor3 \<Rightarrow> error + (real list list \<times> tensor3)" where
  "forward model x hidden =
     (if list_ex (\<lambda>row. length row \<noteq> input_size model) (concat x) then Inl RuntimeError
      else (let (output, hidden) = gru model x hidden;
                output = concat output;
                output = map (fc model) output
            in Inr (output, hidden)))"

text \<open>\<open>GRU.init_hidden\<close>: \<open>torch.zeros(n_layers, batch_size, hidden_size)\<close>.\<close>

definition init_hidden :: "GRU \<Rightarrow> nat \<Rightarrow> tensor3" where
  "init_hidden model batch_size =
     replicate (n_layers model) (replicate batch_size (replicate (hidden_size model) 0))"

text \<open>\<open>F.softmax(output, dim=0)\<close> on a vector, over the reals.\<close>

definition softmax :: "real list \<Rightarrow> real list" where
  "softmax v = map (\<lambda>x. exp x / sum_list (map exp v)) v"

subsection \<open>Generating text\<close>

text \<open>
  \<open>torch.multinomial(output_dist, 1)[0]\<close> draws from the library's random number
  generator. It is a parameter \<open>multinomial\<close> of the model: from the distribution and the
  generator's state to the drawn index and the next state, or to the library's exception.
\<close>

type_synonym 'r sampler = "real list \<Rightarrow> 'r \<Rightarrow> error + (nat \<times> 'r)"

text \<open>The loop \<open>for s in start\<close> of \<open>generate\<close>: the output is dropped, the hidden state kept.\<close>

fun prime :: "GRU \<Rightarrow> real list list \<Rightarrow> tensor3 \<Rightarrow> error + tensor3" where
  "prime model [] hidden = Inr hidden"
| "prime model (s # ss) hidden =
     (case forward model [[s]] hidden of
        Inl e \<Rightarrow> Inl e
      | Inr (_, hidden') \<Rightarrow> prime model ss hidden')"

text \<open>
  The loop \<open>for i in range(length)\<close> of \<open>generate\<close>, with the iterations left to run,
  the current \<open>inpt\<close>, \<open>hidden\<close>, \<open>res\<close> and the generator's state. The result is the
  returned string or the exception, with the generator's state at that moment.
\<close>

fun sample_loop ::
  "GRU \<Rightarrow> TweetDataset \<Rightarrow> 'r sampler \<Rightarrow> nat \<Rightarrow> real list \<Rightarrow> tensor3 \<Rightarrow> string \<Rightarrow> 'r
     \<Rightarrow> (error + string) \<times> 'r" where
  "sample_loop model dataset multinomial 0 inpt hidden res rng = (Inr res, rng)"
| "sample_loop model dataset multinomial (Suc k) inpt hidden res rng =
     (case forward model [[inpt]] hidden of
        Inl e \<Rightarrow> (Inl e, rng)
      | Inr (output, hidden') \<Rightarrow>
          (let output = concat output;
               output_dist = softmax output
           in case multinomial output_dist rng of
                Inl e \<Rightarrow> (Inl e, rng)
              | Inr (top_idx, rng') \<Rightarrow>
                  (case lookup_int (int2char dataset) top_idx of
                     Inl e \<Rightarrow> (Inl e, rng')
                   | Inr char \<Rightarrow>
                       (let res = res @ [char]
                        in case encode_sequence dataset [char] of
                             Inl e \<Rightarrow> (Inl e, rng')
                           | Inr idxs \<Rightarrow>
                               (case one_hot_sequence idxs (vocab_size dataset) of
                                  Inl e \<Rightarrow> (Inl e, rng')
                                | Inr [] \<Rightarrow> (Inl IndexError, rng')
                                | Inr (v # _) \<Rightarrow>
                                    sample_loop model dataset multinomial k (tensor v)
                                      hidden' res rng')))))"

text \<open>
  \<open>generate(model, dataset, start, length)\<close>. \<open>start[-1]\<close> raises IndexError on an
  empty tensor; \<open>range(length)\<close> is empty for a negative \<open>length\<close>.
\<close>

definition generate ::
  "GRU \<Rightarrow> TweetDataset \<Rightarrow> 'r sampler \<Rightarrow> string \<Rightarrow> int \<Rightarrow> 'r \<Rightarrow> (error + string) \<times> 'r" where
  "generate model dataset multinomial start n rng =
     (case encode_sequence dataset start of
        Inl e \<Rightarrow> (Inl e, rng)
      | Inr idxs \<Rightarrow>
          (case one_hot_sequence idxs (vocab_size dataset) of
             Inl e \<Rightarrow> (Inl e, rng)
           | Inr vecs \<Rightarrow>
               (let start = map tensor vecs;
                    hidden = init_hidden model 1
                in case prime model start hidden of
                     Inl e \<Rightarrow> (Inl e, rng)
                   | Inr hidden \<Rightarrow>
                       (if start = [] then (Inl IndexError, rng)
                        else sample_loop model dataset multinomial (nat n) (last start)
                               hidden [] rng))))"

subsection \<open>Training\<close>

definition BATCH_SIZE :: nat where "BATCH_SIZE = 32"
definition N_EPOCHS :: nat where "N_EPOCHS = 10"
definition PRINT_EVERY :: nat where "PRINT_EVERY = 1"

text \<open>
  \<open>loss_avg\<close> starts as the Python integer \<open>0\<close> and becomes a tensor at the first
  \<open>loss_avg += loss\<close>; \<open>.item()\<close> exists on a tensor only.
\<close>

datatype pynum = PyInt int | Scalar real

fun add_loss :: "pynum \<Rightarrow> real \<Rightarrow> pynum" where
  "add_loss (PyInt i) l = Scalar (real_of_int i + l)"
| "add_loss (Scalar a) l = Scalar (a + l)"

fun item :: "pynum \<Rightarrow> error + real" where
  "item (PyInt i) = Inl AttributeError"
| "item (Scalar a) = Inr a"

text \<open>
  A batch is the pair \<open>(x, y)\<close> of the input tensor and the target indices, already
  flattened as \<open>y.view(-1).long()\<close>. \<open>loss_fn\<close> is the library's loss (from the outputs
  and the targets to a number). \<open>loss.backward(); optimizer.step()\<close> is the parameter
  \<open>optimizer_step\<close>: from the optimizer's state, the model and the batch to the next
  optimizer state and the model with its weights updated.
\<close>

type_synonym batch = "tensor3 \<times> nat list"

text \<open>The loop over the batches of one epoch.\<close>

fun train_batches ::
  "('o \<Rightarrow> GRU \<Rightarrow> batch \<Rightarrow> 'o \<times> GRU) \<Rightarrow> (real list list \<Rightarrow> nat list \<Rightarrow> real) \<Rightarrow>
     batch list \<Rightarrow> pynum \<Rightarrow> 'o \<Rightarrow> GRU \<Rightarrow> error + (pynum \<times> 'o \<times> GRU)" where
  "train_batches optimizer_step loss_fn [] loss_avg opt model = Inr (loss_avg, opt, model)"
| "train_batches optimizer_step loss_fn ((x, y) # batches) loss_avg opt model =
     (let hidden = init_hidden model BATCH_SIZE
      in case forward model x hidden of
           Inl e \<Rightarrow> Inl e
         | Inr (output, hidden) \<Rightarrow>
             (let loss = loss_fn output y;
                  loss_avg = add_loss loss_avg loss;
                  (opt, model) = optimizer_step opt model (x, y)
              in train_batches optimizer_step loss_fn batches loss_avg opt model))"

text \<open>
  The body of the loop over the epochs: the batches, then
  \<open>loss_avg = loss_avg.item() / BATCH_SIZE\<close>. The result is the number printed for the
  epoch, if any.
\<close>

definition train_epoch ::
  "('o \<Rightarrow> GRU \<Rightarrow> batch \<Rightarrow> 'o \<times> GRU) \<Rightarrow> (real list list \<Rightarrow> nat list \<Rightarrow> real) \<Rightarrow>
     batch list \<Rightarrow> nat \<Rightarrow> 'o \<Rightarrow> GRU \<Rightarrow> error + ((nat \<times> real) list \<times> 'o \<times> GRU)" where
  "train_epoch optimizer_step loss_fn batches epoch opt model =
     (case train_batches optimizer_step loss_fn batches (PyInt 0) opt model of
        Inl e \<Rightarrow> Inl e
      | Inr (loss_avg, opt, model) \<Rightarrow>
          (case item loss_avg of
             Inl e \<Rightarrow> Inl e
           | Inr a \<Rightarrow>
               (let loss_avg = a / real BATCH_SIZE
                in Inr (if epoch mod PRINT_EVERY = 0 then [(epoch, loss_avg)] else [],
                        opt, model))))"

text \<open>
  \<open>train\<close>: the epochs \<open>1 .. N_EPOCHS\<close> in order. The result is what was printed (the
  epoch and its \<open>loss_avg\<close>), and the final optimizer state and model or the exception
  that ended the training.
\<close>

fun train_epochs ::
  "('o \<Rightarrow> GRU \<Rightarrow> batch \<Rightarrow> 'o \<times> GRU) \<Rightarrow> (real list list \<Rightarrow> nat list \<Rightarrow> real) \<Rightarrow>
     batch list \<Rightarrow> nat list \<Rightarrow> 'o \<Rightarrow> GRU \<Rightarrow> (nat \<times> real) list \<times> (error + ('o \<times> GRU))" where
  "train_epochs optimizer_step loss_fn batches [] opt model = ([], Inr (opt, model))"
| "train_epochs optimizer_step loss_fn batches (epoch # epochs) opt model =
     (case train_epoch optimizer_step loss_fn batches epoch opt model of
        Inl e \<Rightarrow> ([], Inl e)
      | Inr (printed, opt, model) \<Rightarrow>
          (let (more, r) = train_epochs optimizer_step loss_fn batches epochs opt model
           in (printed @ more, r)))"

definition train ::
  "GRU \<Rightarrow> 'o \<Rightarrow> ('o \<Rightarrow> GRU \<Rightarrow> batch \<Rightarrow> 'o \<times> GRU) \<Rightarrow> (real list list \<Rightarrow> nat list \<Rightarrow> real) \<Rightarrow>
     batch list \<Rightarrow> (nat \<times> real) list \<times> (error + ('o \<times> GRU))" where
  "train model opt optimizer_step loss_fn batches =
     train_epochs optimizer_step loss_fn batches [1..<N_EPOCHS + 1] opt model"

subsection \<open>The windower and the decoder as the specification words them\<close>

text \<open>
  The specification's Sequence Windower for one sample and a window length \<open>L\<close>: the
  sample is walked in strides of \<open>L + 1\<close> characters, a slice is right-padded with
  spaces to \<open>L + 1\<close> characters and split into \<open>slice[0..L)\<close> and \<open>slice[1..L+1)\<close>.
  These definitions follow the specification, not the code; they are compared with
  \<open>create_sequences\<close> below.
\<close>

definition pad_to :: "nat \<Rightarrow> string \<Rightarrow> string" where
  "pad_to n s = s @ replicate (n - length s) CHR '' ''"

definition n_strides :: "nat \<Rightarrow> string \<Rightarrow> nat" where
  "n_strides L sample = (length sample + L) div (L + 1)"

definition raw_slice :: "nat \<Rightarrow> string \<Rightarrow> nat \<Rightarrow> string" where
  "raw_slice L sample j = take (L + 1) (drop (j * (L + 1)) sample)"

definition spec_windows :: "nat \<Rightarrow> string \<Rightarrow> (string \<times> string) list" where
  "spec_windows L sample =
     map (\<lambda>j. let slice = pad_to (L + 1) (raw_slice L sample j)
              in (take L slice, drop 1 slice)) [0..<n_strides L sample]"

text \<open>
  Modelled from the spec: the source has no decode function. The specification's
  \<open>decode\<close> maps each index back to its character; in the source that is the lookup
  \<open>dataset.int2char[top]\<close> of \<open>generate\<close>, here applied to every index of a list.
\<close>

definition decode_sequence :: "TweetDataset \<Rightarrow> nat list \<Rightarrow> error + string" where
  "decode_sequence ds idxs = mapE (lookup_int (int2char ds)) idxs"

subsection \<open>The Generator as the specification words it\<close>

text \<open>
  The specification's Generator, on characters and with total functions: the one-hot
  vector of a character (a single 1 at the character's index, 0 elsewhere), one model
  step (logits and new hidden state), priming (every seed character is fed through the
  model, the logits dropped, the hidden state kept), and the sampling iterations (one
  step, softmax, a draw from the distribution, the decoded character appended and used
  as the next input). These definitions follow the specification, not the code; they are
  compared with \<open>generate\<close> below.
\<close>

definition spec_one_hot :: "TweetDataset \<Rightarrow> char \<Rightarrow> real list" where
  "spec_one_hot ds c =
     map (\<lambda>i. if i = the (char2int ds c) then 1 else 0) [0..<vocab_size ds]"

definition spec_step :: "GRU \<Rightarrow> real list \<Rightarrow> tensor3 \<Rightarrow> real list \<times> tensor3" where
  "spec_step model x hidden =
     (let (out, hidden') = gru model [[x]] hidden in (fc model (hd (hd out)), hidden'))"

definition spec_prime :: "GRU \<Rightarrow> TweetDataset \<Rightarrow> string \<Rightarrow> tensor3 \<Rightarrow> tensor3" where
  "spec_prime model ds seed hidden =
     foldl (\<lambda>h c. snd (spec_step model (spec_one_hot ds c) h)) hidden seed"

fun spec_sample ::
  "GRU \<Rightarrow> TweetDataset \<Rightarrow> 'r sampler \<Rightarrow> nat \<Rightarrow> char \<Rightarrow> tensor3 \<Rightarrow> 'r \<Rightarrow> string \<times> 'r" where
  "spec_sample model ds multinomial 0 c hidden rng = ([], rng)"
| "spec_sample model ds multinomial (Suc k) c hidden rng =
     (let (logits, hidden') = spec_step model (spec_one_hot ds c) hidden;
          dist = softmax logits;
          (i, rng') = projr (multinomial dist rng);
          c' = the (int2char ds i);
          (rest, rng'') = spec_sample model ds multinomial k c' hidden' rng'
      in (c' # rest, rng''))"

definition spec_generate ::
  "GRU \<Rightarrow> TweetDataset \<Rightarrow> 'r sampler \<Rightarrow> string \<Rightarrow> nat \<Rightarrow> 'r \<Rightarrow> string \<times> 'r" where
  "spec_generate model ds multinomial seed N rng =
     spec_sample model ds multinomial N (last seed)
       (spec_prime model ds seed (init_hidden model 1)) rng"

subsection \<open>Example inputs\<close>

text \<open>
  The corpus of the specification's end-to-end scenario with window length 4, the same
  characters as another corpus, and the datasets built from them.
\<close>

definition example_tweets :: "string list" where
  "example_tweets = [''hello'', ''well'']"

definition example_dataset :: TweetDataset where
  "example_dataset = projr (TweetDataset_init example_tweets 4)"

definition other_tweets :: "string list" where
  "other_tweets = [''low'', ''he'']"

definition other_dataset :: TweetDataset where
  "other_dataset = projr (TweetDataset_init other_tweets 2)"

text \<open>
  Models whose recurrent layer returns zeros of the right shape and whose linear layer
  returns five zero logits: one built for the example vocabulary (input and output size
  5) and one with a wrong input size. The sampler always draws index 0 and counts its
  draws in the generator state.
\<close>

definition flat_gru :: "tensor3 \<Rightarrow> tensor3 \<Rightarrow> tensor3 \<times> tensor3" where
  "flat_gru x hidden = (map (map (\<lambda>step. replicate 128 0)) x, hidden)"

definition flat_fc :: "real list \<Rightarrow> real list" where
  "flat_fc v = replicate 5 0"

definition flat_model :: GRU where
  "flat_model = \<lparr> input_size = 5, hidden_size = 128, output_size = 5, n_layers = 1,
                  gru = flat_gru, fc = flat_fc \<rparr>"

definition narrow_model :: GRU where
  "narrow_model = \<lparr> input_size = 3, hidden_size = 128, output_size = 5, n_layers = 1,
                    gru = flat_gru, fc = flat_fc \<rparr>"

definition first_sampler :: "nat sampler" where
  "first_sampler probs draws = (if probs = [] then Inl RuntimeError else Inr (0, Suc draws))"

text \<open>
  A loss function that is 2 on every batch, an optimizer step that changes nothing, and
  a batch of \<open>BATCH_SIZE\<close> one-step sequences over the example vocabulary.
\<close>

definition const_loss :: "real list list \<Rightarrow> nat list \<Rightarrow> real" where
  "const_loss output y = 2"

definition keep_step :: "unit \<Rightarrow> GRU \<Rightarrow> batch \<Rightarrow> unit \<times> GRU" where
  "keep_step opt model b = (opt, model)"

definition example_batch :: batch where
  "example_batch = (replicate 32 [[0, 1, 0, 0, 0]], replicate 32 2)"

section \<open>Properties\<close>

subsection \<open>Loops with exceptions, dictionaries, the vocabulary\<close>

lemma mapE_Inr_map: "(\<And>x. x \<in> set xs \<Longrightarrow> f x = Inr (g x)) \<Longrightarrow> mapE f xs = Inr (map g xs)"
  by (induction xs) auto

lemma mapE_first_Inl:
  "(\<And>x. x \<in> set pre \<Longrightarrow> \<exists>y. f x = Inr y) \<Longrightarrow> f c = Inl e \<Longrightarrow> mapE f (pre @ c # post) = Inl e"
  by (induction pre) (fastforce split: sum.splits)+

lemma fold_upd_map_of: "fold (\<lambda>(k, v) m. m(k \<mapsto> v)) ps m = m ++ map_of (rev ps)"
  by (induction ps arbitrary: m) (auto simp: fun_eq_iff map_add_def split: option.splits)

lemma dict_of_map_of: "dict_of ps = map_of (rev ps)"
  by (simp add: dict_of_def fold_upd_map_of)

lemma fold_insert_set: "fold insert xs A = set xs \<union> A"
  by (induction xs arbitrary: A) auto

lemma fold_tweets_set:
  "fold (\<lambda>tweet cs. fold insert tweet cs) tweets A = A \<union> \<Union>(set ` set tweets)"
  by (induction tweets arbitrary: A) (auto simp: fold_insert_set)

lemma set_get_unique_chars: "set (get_unique_chars tweets) = \<Union>(set ` set tweets)"
  by (simp add: get_unique_chars_def fold_tweets_set)

lemma distinct_get_unique_chars: "distinct (get_unique_chars tweets)"
  by (simp add: get_unique_chars_def)

lemma sorted_get_unique_chars: "sorted (get_unique_chars tweets)"
  by (simp add: get_unique_chars_def)

lemma get_unique_chars_any_order:
  "distinct xs \<Longrightarrow> set xs = \<Union>(set ` set tweets) \<Longrightarrow> sort xs = get_unique_chars tweets"
  by (metis distinct_get_unique_chars distinct_sort set_get_unique_chars set_sort
      sorted_distinct_set_unique sorted_get_unique_chars sorted_sort)

lemma map_of_rev_distinct: "distinct (map fst ps) \<Longrightarrow> map_of (rev ps) = map_of ps"
  by (rule ext) (metis distinct_rev map_of_eq_None_iff map_of_is_SomeI map_of_SomeD not_Some_eq rev_map set_rev)

lemma int2char_dict:
  "dict_of (enumerate 0 cs) i = (if i < length cs then Some (cs ! i) else None)"
proof -
  have d: "distinct (map fst (enumerate 0 cs))" by simp
  show ?thesis
  proof (cases "i < length cs")
    case True
    then have "(i, cs ! i) \<in> set (enumerate 0 cs)" by (simp add: in_set_enumerate_eq)
    with d have "map_of (enumerate 0 cs) i = Some (cs ! i)" by (rule_tac map_of_is_SomeI)
    with True d show ?thesis by (simp only: dict_of_map_of map_of_rev_distinct if_True)
  next
    case False
    then have "i \<notin> fst ` set (enumerate 0 cs)" by (auto simp: in_set_enumerate_eq)
    then have "map_of (enumerate 0 cs) i = None" by (simp add: map_of_eq_None_iff)
    with False d show ?thesis by (simp only: dict_of_map_of map_of_rev_distinct if_False)
  qed
qed

lemma char2int_dict:
  assumes "distinct cs"
  shows "dict_of (map (\<lambda>(i, c). (c, i)) (enumerate 0 cs)) c = Some i \<longleftrightarrow> i < length cs \<and> cs ! i = c"
proof -
  let ?ps = "map (\<lambda>(i, c). (c, i)) (enumerate 0 cs)"
  have fst_ps: "map fst ?ps = cs" by (simp add: comp_def case_prod_unfold)
  with assms have d: "distinct (map fst ?ps)" by simp
  have "map_of ?ps c = Some i \<longleftrightarrow> (c, i) \<in> set ?ps"
    using d by (metis map_of_SomeD map_of_is_SomeI)
  also have "\<dots> \<longleftrightarrow> i < length cs \<and> cs ! i = c"
    by (auto simp: in_set_enumerate_eq)
  finally show ?thesis using d by (simp only: dict_of_map_of map_of_rev_distinct)
qed

lemma init_fields:
  assumes "TweetDataset_init tweets sl = Inr ds"
  shows "chars ds = get_unique_chars tweets"
    and "vocab_size ds = length (chars ds)"
    and "int2char ds = dict_of (enumerate 0 (chars ds))"
    and "char2int ds = dict_of (map (\<lambda>(i, c). (c, i)) (enumerate 0 (chars ds)))"
    and "create_sequences sl tweets = Inr (sequences ds)"
  using assms by (auto simp: TweetDataset_init_def Let_def split: sum.splits)

lemma ds_distinct: "TweetDataset_init tweets sl = Inr ds \<Longrightarrow> distinct (chars ds)"
  by (simp add: init_fields(1) distinct_get_unique_chars)

lemma ds_int2char:
  "TweetDataset_init tweets sl = Inr ds \<Longrightarrow>
     int2char ds i = (if i < vocab_size ds then Some (chars ds ! i) else None)"
  by (simp only: init_fields(2,3) int2char_dict)

lemma ds_char2int:
  "TweetDataset_init tweets sl = Inr ds \<Longrightarrow>
     char2int ds c = Some i \<longleftrightarrow> i < vocab_size ds \<and> chars ds ! i = c"
  using char2int_dict [OF ds_distinct, of tweets sl ds c i]
  by (simp only: init_fields(2,4))

lemma ds_char2int_in:
  assumes "TweetDataset_init tweets sl = Inr ds" and "c \<in> set (chars ds)"
  shows "\<exists>i. i < vocab_size ds \<and> chars ds ! i = c \<and> char2int ds c = Some i"
proof -
  from assms(2) obtain i where "i < length (chars ds)" "chars ds ! i = c"
    by (auto simp: in_set_conv_nth)
  with assms(1) show ?thesis
    using ds_char2int [OF assms(1), of c i] by (auto simp: init_fields(2))
qed

lemma ds_char2int_notin:
  assumes "TweetDataset_init tweets sl = Inr ds" and "c \<notin> set (chars ds)"
  shows "char2int ds c = None"
proof (cases "char2int ds c")
  case None then show ?thesis .
next
  case (Some i)
  with assms(1) have "i < vocab_size ds \<and> chars ds ! i = c" by (simp add: ds_char2int)
  with assms show ?thesis by (auto simp: init_fields(2))
qed

lemma encode_in_vocab:
  assumes "TweetDataset_init tweets sl = Inr ds" and "set s \<subseteq> set (chars ds)"
  shows "encode_sequence ds s = Inr (map (\<lambda>c. the (char2int ds c)) s)"
  unfolding encode_sequence_def
proof (rule mapE_Inr_map)
  fix c assume "c \<in> set s"
  with assms(2) have "c \<in> set (chars ds)" by auto
  from ds_char2int_in [OF assms(1) this]
  show "lookup_char (char2int ds) c = Inr (the (char2int ds c))"
    by (auto simp: lookup_char_def)
qed

lemma encode_first_unknown:
  assumes "TweetDataset_init tweets sl = Inr ds"
    and "set pre \<subseteq> set (chars ds)" and "c \<notin> set (chars ds)"
  shows "encode_sequence ds (pre @ c # post) = Inl (KeyError (CharKey c))"
  unfolding encode_sequence_def
proof (rule mapE_first_Inl)
  fix x assume "x \<in> set pre"
  with assms(2) have "x \<in> set (chars ds)" by auto
  from ds_char2int_in [OF assms(1) this]
  show "\<exists>y. lookup_char (char2int ds) x = Inr y" by (auto simp: lookup_char_def)
next
  show "lookup_char (char2int ds) c = Inl (KeyError (CharKey c))"
    by (simp add: lookup_char_def ds_char2int_notin [OF assms(1,3)])
qed

lemma first_unknown_split:
  assumes "\<not> set s \<subseteq> A"
  shows "\<exists>pre c post. s = pre @ c # post \<and> set pre \<subseteq> A \<and> c \<notin> A"
proof -
  from assms have "\<exists>x\<in>set s. x \<notin> A" by auto
  then obtain pre c post where "s = pre @ c # post" "c \<notin> A" "\<forall>y\<in>set pre. \<not> y \<notin> A"
    by (auto simp: split_list_first_prop_iff)
  then show ?thesis by auto
qed

text \<open>The example datasets, evaluated.\<close>

lemma example_chars: "get_unique_chars example_tweets = ''ehlow''"
  by code_simp

lemma example_sequences:
  "create_sequences 4 example_tweets = Inr [(''hell'', ''ello''), (''well'', ''ell '')]"
  by (simp add: example_tweets_def create_sequences_def tweet_seqs_def py_range_def window_def)

lemma example_init: "TweetDataset_init example_tweets 4 = Inr example_dataset"
  by (simp add: example_dataset_def TweetDataset_init_def example_sequences Let_def)

lemma example_fields:
  "chars example_dataset = ''ehlow''" "vocab_size example_dataset = 5"
  using init_fields(1,2) [OF example_init] by (simp_all add: example_chars)

lemma example_union: "\<Union>(set ` set example_tweets) = set ''ehlow''"
  by (auto simp: example_tweets_def)

lemma other_sequences:
  "create_sequences 2 other_tweets = Inr [(''lo'', ''ow''), (''he'', ''e '')]"
  by (simp add: other_tweets_def create_sequences_def tweet_seqs_def py_range_def window_def)

lemma other_init: "TweetDataset_init other_tweets 2 = Inr other_dataset"
  by (simp add: other_dataset_def TweetDataset_init_def other_sequences Let_def)

lemma other_union: "\<Union>(set ` set other_tweets) = \<Union>(set ` set example_tweets)"
  by (auto simp: other_tweets_def example_tweets_def)

text \<open>
  Claim C6. For every corpus, the index-to-character and character-to-index mappings
  built by \<open>TweetDataset.__init__\<close> from \<open>_get_unique_chars\<close> form a bijection between
  the distinct characters of the corpus and the indices \<open>0 ..< vocab_size\<close>, index \<open>i\<close>
  holding the \<open>i\<close>-th character in sorted order. The mappings do not depend on the
  order in which the set of characters is listed before it is sorted, and two corpora
  with the same characters (the same corpus run again, in particular) get identical
  mappings.
\<close>

theorem vocabulary_bijection:
  assumes "TweetDataset_init tweets sl = Inr ds"
  shows "set (chars ds) = \<Union>(set ` set tweets)
       \<and> vocab_size ds = card (\<Union>(set ` set tweets))
       \<and> sorted_wrt (<) (chars ds)
       \<and> dom (char2int ds) = \<Union>(set ` set tweets)
       \<and> dom (int2char ds) = {0..<vocab_size ds}
       \<and> bij_betw (\<lambda>c. the (char2int ds c)) (\<Union>(set ` set tweets)) {0..<vocab_size ds}
       \<and> (\<forall>c\<in>\<Union>(set ` set tweets). int2char ds (the (char2int ds c)) = Some c)
       \<and> (\<forall>i<vocab_size ds. int2char ds i = Some (chars ds ! i)
             \<and> char2int ds (the (int2char ds i)) = Some i)
       \<and> (\<forall>xs. distinct xs \<and> set xs = \<Union>(set ` set tweets) \<longrightarrow> sort xs = chars ds)
       \<and> (\<forall>tweets' sl' ds'. TweetDataset_init tweets' sl' = Inr ds'
             \<and> \<Union>(set ` set tweets') = \<Union>(set ` set tweets)
             \<longrightarrow> chars ds' = chars ds \<and> int2char ds' = int2char ds \<and> char2int ds' = char2int ds)"
proof -
  let ?U = "\<Union>(set ` set tweets)"
  note f = init_fields [OF assms]
  have set_cs: "set (chars ds) = ?U" by (simp add: f(1) set_get_unique_chars)
  have dist: "distinct (chars ds)" by (rule ds_distinct [OF assms])
  have size: "vocab_size ds = card ?U"
    using distinct_card [OF dist] by (simp add: f(2) set_cs)
  have srt: "sorted_wrt (<) (chars ds)"
    using dist sorted_get_unique_chars [of tweets] by (simp add: f(1) strict_sorted_iff)
  have c2i: "\<And>c i. char2int ds c = Some i \<longleftrightarrow> i < vocab_size ds \<and> chars ds ! i = c"
    by (rule ds_char2int [OF assms])
  have i2c: "\<And>i. int2char ds i = (if i < vocab_size ds then Some (chars ds ! i) else None)"
    by (rule ds_int2char [OF assms])
  have dom_c2i: "dom (char2int ds) = ?U"
  proof (rule set_eqI)
    fix c
    show "c \<in> dom (char2int ds) \<longleftrightarrow> c \<in> ?U"
    proof (cases "c \<in> set (chars ds)")
      case True
      from ds_char2int_in [OF assms True] True show ?thesis by (auto simp: set_cs)
    next
      case False
      from ds_char2int_notin [OF assms False] False show ?thesis by (auto simp: set_cs)
    qed
  qed
  have dom_i2c: "dom (int2char ds) = {0..<vocab_size ds}"
    by (auto simp: i2c dom_def)
  have rt_char: "\<forall>c\<in>?U. int2char ds (the (char2int ds c)) = Some c"
  proof
    fix c assume "c \<in> ?U"
    then have "c \<in> set (chars ds)" by (simp only: set_cs)
    from ds_char2int_in [OF assms this] show "int2char ds (the (char2int ds c)) = Some c"
      by (auto simp: i2c)
  qed
  have rt_idx: "\<forall>i<vocab_size ds. int2char ds i = Some (chars ds ! i)
                  \<and> char2int ds (the (int2char ds i)) = Some i"
    by (simp add: i2c c2i)
  have bij: "bij_betw (\<lambda>c. the (char2int ds c)) ?U {0..<vocab_size ds}"
  proof (rule bij_betw_byWitness [where f' = "\<lambda>i. the (int2char ds i)"])
    show "\<forall>c\<in>?U. the (int2char ds (the (char2int ds c))) = c" using rt_char by simp
    have "char2int ds (chars ds ! i) = Some i" if "i < vocab_size ds" for i
      using that by (simp add: c2i)
    then show "\<forall>i\<in>{0..<vocab_size ds}. the (char2int ds (the (int2char ds i))) = i"
      by (simp add: i2c)
    show "(\<lambda>c. the (char2int ds c)) ` ?U \<subseteq> {0..<vocab_size ds}"
    proof
      fix i assume "i \<in> (\<lambda>c. the (char2int ds c)) ` ?U"
      then obtain c where "c \<in> set (chars ds)" "i = the (char2int ds c)"
        unfolding set_cs by auto
      with ds_char2int_in [OF assms this(1)] show "i \<in> {0..<vocab_size ds}" by auto
    qed
    show "(\<lambda>i. the (int2char ds i)) ` {0..<vocab_size ds} \<subseteq> ?U"
      unfolding set_cs [symmetric] by (auto simp: i2c f(2))
  qed
  have order: "\<forall>xs. distinct xs \<and> set xs = ?U \<longrightarrow> sort xs = chars ds"
    by (simp add: f(1) get_unique_chars_any_order)
  have rerun: "\<forall>tweets' sl' ds'. TweetDataset_init tweets' sl' = Inr ds'
             \<and> \<Union>(set ` set tweets') = ?U
             \<longrightarrow> chars ds' = chars ds \<and> int2char ds' = int2char ds \<and> char2int ds' = char2int ds"
  proof (intro allI impI, elim conjE)
    fix tweets' sl' ds'
    assume i': "TweetDataset_init tweets' sl' = Inr ds'" and u: "\<Union>(set ` set tweets') = ?U"
    note f' = init_fields [OF i']
    have "get_unique_chars tweets' = get_unique_chars tweets"
      by (rule sorted_distinct_set_unique)
         (simp_all add: sorted_get_unique_chars distinct_get_unique_chars set_get_unique_chars u)
    then have "chars ds' = chars ds" by (simp add: f(1) f'(1))
    then show "chars ds' = chars ds \<and> int2char ds' = int2char ds \<and> char2int ds' = char2int ds"
      by (simp add: f(3,4) f'(3,4))
  qed
  from set_cs size srt dom_c2i dom_i2c bij rt_char rt_idx order rerun show ?thesis by blast
qed

theorem vocabulary_bijection_witness:
  "TweetDataset_init example_tweets 4 = Inr example_dataset
   \<and> set (chars example_dataset) = \<Union>(set ` set example_tweets)
   \<and> vocab_size example_dataset = card (\<Union>(set ` set example_tweets))
   \<and> sorted_wrt (<) (chars example_dataset)
   \<and> bij_betw (\<lambda>c. the (char2int example_dataset c)) (\<Union>(set ` set example_tweets))
        {0..<vocab_size example_dataset}
   \<and> CHR ''h'' \<in> \<Union>(set ` set example_tweets)
   \<and> int2char example_dataset (the (char2int example_dataset CHR ''h'')) = Some CHR ''h''
   \<and> 1 < vocab_size example_dataset
   \<and> int2char example_dataset 1 = Some (chars example_dataset ! 1)
   \<and> char2int example_dataset (the (int2char example_dataset 1)) = Some 1
   \<and> distinct ''olehw'' \<and> set ''olehw'' = \<Union>(set ` set example_tweets)
   \<and> sort ''olehw'' = chars example_dataset
   \<and> TweetDataset_init other_tweets 2 = Inr other_dataset
   \<and> \<Union>(set ` set other_tweets) = \<Union>(set ` set example_tweets)
   \<and> chars other_dataset = chars example_dataset
   \<and> int2char other_dataset = int2char example_dataset
   \<and> char2int other_dataset = char2int example_dataset"
proof -
  note v = vocabulary_bijection [OF example_init]
  have h: "CHR ''h'' \<in> \<Union>(set ` set example_tweets)"
    unfolding example_union by simp
  have one: "1 < vocab_size example_dataset" by (simp add: example_fields)
  have d: "distinct ''olehw''" by simp
  have p: "set ''olehw'' = \<Union>(set ` set example_tweets)"
    unfolding example_union by auto
  from v have a: "set (chars example_dataset) = \<Union>(set ` set example_tweets)" by (elim conjE)
  from v have b: "vocab_size example_dataset = card (\<Union>(set ` set example_tweets))" by (elim conjE)
  from v have c: "sorted_wrt (<) (chars example_dataset)" by (elim conjE)
  from v have e: "bij_betw (\<lambda>c. the (char2int example_dataset c)) (\<Union>(set ` set example_tweets))
        {0..<vocab_size example_dataset}" by (elim conjE)
  from v have "\<forall>c\<in>\<Union>(set ` set example_tweets).
      int2char example_dataset (the (char2int example_dataset c)) = Some c" by (elim conjE)
  with h have f: "int2char example_dataset (the (char2int example_dataset CHR ''h'')) = Some CHR ''h''"
    by (rule_tac bspec)
  from v have "\<forall>i<vocab_size example_dataset. int2char example_dataset i = Some (chars example_dataset ! i)
             \<and> char2int example_dataset (the (int2char example_dataset i)) = Some i" by (elim conjE)
  with one have g: "int2char example_dataset 1 = Some (chars example_dataset ! 1)"
    "char2int example_dataset (the (int2char example_dataset 1)) = Some 1" by blast+
  from v have "\<forall>xs. distinct xs \<and> set xs = \<Union>(set ` set example_tweets) \<longrightarrow> sort xs = chars example_dataset"
    by (elim conjE)
  with d p have s: "sort ''olehw'' = chars example_dataset" by blast
  from v have "\<forall>tweets' sl' ds'. TweetDataset_init tweets' sl' = Inr ds'
             \<and> \<Union>(set ` set tweets') = \<Union>(set ` set example_tweets)
             \<longrightarrow> chars ds' = chars example_dataset \<and> int2char ds' = int2char example_dataset
               \<and> char2int ds' = char2int example_dataset" by (elim conjE)
  with other_init other_union have r: "chars other_dataset = chars example_dataset"
    "int2char other_dataset = int2char example_dataset"
    "char2int other_dataset = char2int example_dataset" by blast+
  show ?thesis
    by (intro conjI) (fact example_init other_init other_union a b c e h f one g d p s r)+
qed

text \<open>
  Claim C7. For every string made of vocabulary characters only, encoding succeeds and
  decoding the resulting indices gives the string back.
\<close>

theorem encode_decode_roundtrip:
  assumes "TweetDataset_init tweets sl = Inr ds" and "set s \<subseteq> set (chars ds)"
  shows "\<exists>idxs. encode_sequence ds s = Inr idxs \<and> decode_sequence ds idxs = Inr s"
proof -
  let ?idxs = "map (\<lambda>c. the (char2int ds c)) s"
  have "decode_sequence ds ?idxs = Inr (map (\<lambda>i. the (int2char ds i)) ?idxs)"
    unfolding decode_sequence_def
  proof (rule mapE_Inr_map)
    fix i assume "i \<in> set ?idxs"
    then obtain c where c: "c \<in> set s" "i = the (char2int ds c)" by auto
    with assms(2) have "c \<in> set (chars ds)" by auto
    from ds_char2int_in [OF assms(1) this] c(2) have "i < vocab_size ds" by auto
    then show "lookup_int (int2char ds) i = Inr (the (int2char ds i))"
      by (simp add: lookup_int_def ds_int2char [OF assms(1)])
  qed
  also have "map (\<lambda>i. the (int2char ds i)) ?idxs = s"
  proof -
    have "the (int2char ds (the (char2int ds c))) = c" if "c \<in> set s" for c
    proof -
      from that assms(2) have "c \<in> set (chars ds)" by auto
      from ds_char2int_in [OF assms(1) this] show ?thesis
        by (auto simp: ds_int2char [OF assms(1)])
    qed
    then show ?thesis by (auto intro!: map_idI)
  qed
  finally show ?thesis using encode_in_vocab [OF assms] by blast
qed

theorem encode_decode_roundtrip_witness:
  "TweetDataset_init example_tweets 4 = Inr example_dataset
   \<and> set ''hello'' \<subseteq> set (chars example_dataset)
   \<and> (\<exists>idxs. encode_sequence example_dataset ''hello'' = Inr idxs
         \<and> decode_sequence example_dataset idxs = Inr ''hello'')"
proof -
  have s: "set ''hello'' \<subseteq> set (chars example_dataset)" by (simp add: example_fields)
  from encode_decode_roundtrip [OF example_init s] example_init s show ?thesis by blast
qed

subsection \<open>The Sequence Windower\<close>

lemma window_nat:
  "window (int L) tweet i = Inr (pad_to (L + 1) (take (L + 1) (drop i tweet)))"
proof -
  have n: "nat (int L + 1) = L + 1" by simp
  show ?thesis
    unfolding window_def Let_def n pad_to_def
    by (auto simp: nat_diff_distrib' min_def)
qed

lemma py_range_nat:
  "py_range n (int L + 1) = Inr (map (\<lambda>j. j * (L + 1)) [0..<(n + L) div (L + 1)])"
proof -
  have n: "nat (int L + 1) = L + 1" by simp
  show ?thesis unfolding py_range_def n by simp
qed

lemma tweet_seqs_nat:
  "tweet_seqs (int L) tweet =
     Inr (map (\<lambda>j. pad_to (L + 1) (raw_slice L tweet j)) [0..<n_strides L tweet])"
proof -
  have "mapE (window (int L) tweet) (map (\<lambda>j. j * (L + 1)) [0..<n_strides L tweet])
      = Inr (map (\<lambda>i. pad_to (L + 1) (take (L + 1) (drop i tweet)))
               (map (\<lambda>j. j * (L + 1)) [0..<n_strides L tweet]))"
    by (rule mapE_Inr_map) (rule window_nat)
  then show ?thesis
    by (simp add: tweet_seqs_def py_range_nat n_strides_def raw_slice_def comp_def)
qed

lemma length_pad_to: "length s \<le> n \<Longrightarrow> length (pad_to n s) = n"
  by (simp add: pad_to_def)

lemma length_raw_slice: "length (raw_slice L sample j) \<le> L + 1"
  by (simp add: raw_slice_def)

lemma length_padded_slice: "length (pad_to (L + 1) (raw_slice L sample j)) = L + 1"
  by (rule length_pad_to) (rule length_raw_slice)

lemma zip_butlast_tl: "zip (map butlast xs) (map tl xs) = map (\<lambda>s. (butlast s, tl s)) xs"
  by (induction xs) auto

lemma butlast_tl_padded:
  "(butlast (pad_to (L + 1) (raw_slice L sample j)), tl (pad_to (L + 1) (raw_slice L sample j)))
   = (take L (pad_to (L + 1) (raw_slice L sample j)),
      drop 1 (pad_to (L + 1) (raw_slice L sample j)))"
proof -
  have "length (pad_to (L + 1) (raw_slice L sample j)) = L + 1" by (rule length_padded_slice)
  then have "butlast (pad_to (L + 1) (raw_slice L sample j))
      = take L (pad_to (L + 1) (raw_slice L sample j))"
    by (simp only: butlast_conv_take add_diff_cancel_right')
  then show ?thesis by (simp add: drop_Suc)
qed

lemma create_sequences_corpus:
  "create_sequences (int L) tweets = Inr (concat (map (spec_windows L) tweets))"
proof -
  let ?slices = "\<lambda>t. map (\<lambda>j. pad_to (L + 1) (raw_slice L t j)) [0..<n_strides L t]"
  have m: "mapE (tweet_seqs (int L)) tweets = Inr (map ?slices tweets)"
    by (rule mapE_Inr_map) (rule tweet_seqs_nat)
  have "map (\<lambda>s. (butlast s, tl s)) (?slices t) = spec_windows L t" for t
    by (simp add: spec_windows_def Let_def comp_def butlast_tl_padded del: One_nat_def)
  then have "map (\<lambda>s. (butlast s, tl s)) (concat (map ?slices tweets))
      = concat (map (spec_windows L) tweets)"
    by (simp add: map_concat comp_def del: One_nat_def)
  then show ?thesis
    by (simp add: create_sequences_def m zip_butlast_tl Let_def del: One_nat_def)
qed

lemma create_sequences_single:
  "create_sequences (int L) [sample] = Inr (spec_windows L sample)"
  by (simp add: create_sequences_corpus)

lemma concat_strides:
  "concat (map (\<lambda>j. take k (drop (j * k) xs)) [0..<m]) = take (m * k) xs"
  by (induction m) (simp_all add: take_add [symmetric] add.commute)

lemma concat_raw_slices:
  "concat (map (raw_slice L sample) [0..<m]) = take (m * (L + 1)) sample"
  using concat_strides [of "L + 1" sample m] unfolding raw_slice_def .

lemma ceil_div_cover: "0 < k \<Longrightarrow> n \<le> ((n + (k - 1)) div k) * k" for n k :: nat
proof -
  assume k: "0 < k"
  then have "n + (k - 1) < k + ((n + (k - 1)) div k) * k" by (rule dividend_less_div_times)
  with k show ?thesis by arith
qed

lemma ceil_div_inner:
  "0 < k \<Longrightarrow> Suc j < (n + (k - 1)) div k \<Longrightarrow> j * k + k \<le> n" for n k :: nat
proof -
  assume k: "0 < k" and j: "Suc j < (n + (k - 1)) div k"
  from j have "j + 2 \<le> (n + (k - 1)) div k" by simp
  then have "(j + 2) * k \<le> (n + (k - 1)) div k * k" by (rule mult_le_mono1)
  also have "\<dots> \<le> n + (k - 1)" by (rule div_times_less_eq_dividend)
  finally have "j * k + k + k \<le> n + (k - 1)" by (simp add: algebra_simps)
  with k show ?thesis by arith
qed

lemma ceil_div_one: "0 < n \<Longrightarrow> n \<le> k \<Longrightarrow> (n + (k - 1)) div k = 1" for n k :: nat
  by (rule div_nat_eqI) auto

lemma strides_cover: "length sample \<le> n_strides L sample * (L + 1)"
  using ceil_div_cover [of "L + 1" "length sample"] by (simp add: n_strides_def)

lemma inner_slice_full:
  assumes "Suc j < n_strides L sample"
  shows "length (raw_slice L sample j) = L + 1"
proof -
  from assms have "j * (L + 1) + (L + 1) \<le> length sample"
    using ceil_div_inner [of "L + 1" j "length sample"] by (simp add: n_strides_def)
  then show ?thesis unfolding raw_slice_def by simp
qed

text \<open>A sample of eleven characters with window length 4, evaluated.\<close>

lemma spec_windows_example:
  "spec_windows 4 ''hello world'' = [(''hell'', ''ello''), ('' wor'', ''worl''), (''d   '', ''    '')]"
  by code_simp

lemma n_strides_example: "n_strides 4 ''hello world'' = 3"
  by code_simp

lemma raw_slice_example: "raw_slice 4 ''hello world'' 0 = ''hello''"
  by code_simp

text \<open>
  Claim C1. For every corpus, sample and window length \<open>L\<close>, \<open>_create_sequences\<close> yields
  the specification's windows, sample after sample: slice \<open>j\<close> of a sample starts at
  \<open>j * (L + 1)\<close> and takes \<open>L + 1\<close> characters, the slices are disjoint and cover the
  sample, only the last one can be short, each is padded with spaces to exactly \<open>L + 1\<close>
  characters and split into \<open>slice[0..L)\<close> and \<open>slice[1..L+1)\<close>; so input and target
  both have length \<open>L\<close>, and the target is the input shifted by one position.
\<close>

theorem windower_pairs:
  "create_sequences (int L) tweets = Inr (concat (map (spec_windows L) tweets))
   \<and> create_sequences (int L) [sample] = Inr (spec_windows L sample)
   \<and> concat (map (raw_slice L sample) [0..<n_strides L sample]) = sample
   \<and> (\<forall>j. Suc j < n_strides L sample \<longrightarrow> length (raw_slice L sample j) = L + 1)
   \<and> (\<forall>j. length (pad_to (L + 1) (raw_slice L sample j)) = L + 1)
   \<and> (\<forall>(inp, tgt) \<in> set (spec_windows L sample).
         length inp = L \<and> length tgt = L \<and> (\<forall>i. Suc i < L \<longrightarrow> tgt ! i = inp ! Suc i))"
proof -
  have cover: "concat (map (raw_slice L sample) [0..<n_strides L sample]) = sample"
    using strides_cover [of sample L] by (simp only: concat_raw_slices take_all)
  have pairs: "length inp = L \<and> length tgt = L \<and> (\<forall>i. Suc i < L \<longrightarrow> tgt ! i = inp ! Suc i)"
    if "(inp, tgt) \<in> set (spec_windows L sample)" for inp tgt
  proof -
    from that obtain j where
      inp: "inp = take L (pad_to (L + 1) (raw_slice L sample j))" and
      tgt: "tgt = drop 1 (pad_to (L + 1) (raw_slice L sample j))"
      by (auto simp: spec_windows_def Let_def)
    have len: "length (pad_to (L + 1) (raw_slice L sample j)) = L + 1"
      by (rule length_padded_slice)
    show ?thesis unfolding inp tgt using len by simp
  qed
  show ?thesis
    using create_sequences_corpus create_sequences_single cover inner_slice_full
      length_padded_slice pairs
    by blast
qed

theorem windower_pairs_witness:
  "create_sequences (int 4) [''hello world'']
     = Inr [(''hell'', ''ello''), ('' wor'', ''worl''), (''d   '', ''    '')]
   \<and> Suc 0 < n_strides 4 ''hello world''
   \<and> length (raw_slice 4 ''hello world'' 0) = 4 + 1
   \<and> (''hell'', ''ello'') \<in> set (spec_windows 4 ''hello world'')
   \<and> length ''hell'' = 4 \<and> length ''ello'' = 4
   \<and> Suc 2 < (4::nat) \<and> ''ello'' ! 2 = ''hell'' ! Suc 2"
proof -
  note w = windower_pairs [of 4 "[''hello world'']" "''hello world''"]
  from w have "create_sequences (int 4) [''hello world''] = Inr (spec_windows 4 ''hello world'')"
    by blast
  moreover have "Suc 0 < n_strides 4 ''hello world''" by (simp add: n_strides_example)
  moreover from w this have "length (raw_slice 4 ''hello world'' 0) = 4 + 1" by blast
  moreover have "(''hell'', ''ello'') \<in> set (spec_windows 4 ''hello world'')"
    by (simp add: spec_windows_example)
  moreover from w this have "length ''hell'' = 4 \<and> length ''ello'' = 4
      \<and> (\<forall>i. Suc i < 4 \<longrightarrow> ''ello'' ! i = ''hell'' ! Suc i)" by blast
  ultimately show ?thesis by (simp add: spec_windows_example)
qed

lemma one_stride:
  assumes "sample \<noteq> []" and "length sample < L + 1"
  shows "n_strides L sample = 1"
  using assms ceil_div_one [of "length sample" "L + 1"] by (simp add: n_strides_def)

text \<open>
  Claim C5, amended. Every non-empty sample shorter than \<open>L + 1\<close> characters yields
  exactly one window pair, split from the sample right-padded with spaces to \<open>L + 1\<close>
  characters; the empty sample yields no window pair.
\<close>

theorem short_sample_one_window:
  "(sample \<noteq> [] \<and> length sample < L + 1 \<longrightarrow>
      create_sequences (int L) [sample] =
        Inr [(take L (sample @ replicate (L + 1 - length sample) CHR '' ''),
              drop 1 (sample @ replicate (L + 1 - length sample) CHR '' ''))])
   \<and> create_sequences (int L) [''''] = Inr []"
proof (intro conjI impI)
  assume a: "sample \<noteq> [] \<and> length sample < L + 1"
  then have "n_strides L sample = 1" by (simp add: one_stride)
  moreover from a have "raw_slice L sample 0 = sample" by (simp add: raw_slice_def)
  ultimately show "create_sequences (int L) [sample] =
        Inr [(take L (sample @ replicate (L + 1 - length sample) CHR '' ''),
              drop 1 (sample @ replicate (L + 1 - length sample) CHR '' ''))]"
    by (simp add: create_sequences_single spec_windows_def pad_to_def Let_def)
next
  show "create_sequences (int L) [''''] = Inr []"
    by (simp add: create_sequences_single spec_windows_def n_strides_def)
qed

theorem short_sample_one_window_witness:
  "''well'' \<noteq> [] \<and> length ''well'' < 4 + 1
   \<and> create_sequences (int 4) [''well''] = Inr [(''well'', ''ell '')]"
  using short_sample_one_window [of "''well''" 4] by simp

text \<open>
  Claim C5 as stated fails on the empty sample: \<open>range(0, 0, 5)\<close> is empty, so the loop
  body never runs and no window is produced.
\<close>

theorem empty_sample_no_window: "create_sequences 4 [''''] = Inr []"
  by (simp add: create_sequences_def tweet_seqs_def py_range_def)

subsection \<open>The Generator\<close>

lemma one_hot_tensor:
  "s < V \<Longrightarrow> tensor ((replicate V 0)[s := 1]) = map (\<lambda>i. if i = s then 1 else 0) [0..<V]"
  by (rule nth_equalityI) (auto simp: tensor_def nth_list_update)

lemma one_hot_char:
  assumes "TweetDataset_init tweets sl = Inr ds" and "c \<in> set (chars ds)"
  shows "\<exists>v. one_hot (vocab_size ds) (the (char2int ds c)) = Inr v \<and> tensor v = spec_one_hot ds c"
proof -
  from ds_char2int_in [OF assms] have "the (char2int ds c) < vocab_size ds" by auto
  then show ?thesis by (simp add: one_hot_def one_hot_tensor spec_one_hot_def)
qed

lemma length_spec_one_hot: "length (spec_one_hot ds c) = vocab_size ds"
  by (simp add: spec_one_hot_def)

lemma one_hot_seq:
  assumes "TweetDataset_init tweets sl = Inr ds" and "set s \<subseteq> set (chars ds)"
  shows "\<exists>vecs. one_hot_sequence (map (\<lambda>c. the (char2int ds c)) s) (vocab_size ds) = Inr vecs
           \<and> map tensor vecs = map (spec_one_hot ds) s"
  using assms(2)
proof (induction s)
  case Nil
  show ?case by (simp add: one_hot_sequence_def)
next
  case (Cons c s)
  then have "c \<in> set (chars ds)" and "set s \<subseteq> set (chars ds)" by auto
  from one_hot_char [OF assms(1) this(1)] Cons.IH [OF this(2)]
  show ?case by (auto simp: one_hot_sequence_def)
qed

lemma forward_step:
  assumes gru_shape: "\<And>x h. map length (fst (gru model x h)) = map length x"
    and len: "length x = input_size model"
  shows "forward model [[x]] hidden
           = Inr ([fst (spec_step model x hidden)], snd (spec_step model x hidden))"
proof -
  obtain out h' where g: "gru model [[x]] hidden = (out, h')" by (cases "gru model [[x]] hidden")
  with gru_shape [of "[[x]]" hidden] have "map length out = [1]" by simp
  then obtain row where "out = [[row]]"
    by (cases out) (auto simp: length_Suc_conv)
  with g len show ?thesis by (simp add: forward_def spec_step_def)
qed

lemma length_spec_step:
  assumes "\<And>v. length (fc model v) = output_size model"
  shows "length (fst (spec_step model x hidden)) = output_size model"
  using assms by (simp add: spec_step_def split: prod.splits)

lemma prime_fold:
  assumes gru_shape: "\<And>x h. map length (fst (gru model x h)) = map length x"
    and "\<forall>x\<in>set xs. length x = input_size model"
  shows "prime model xs hidden = Inr (foldl (\<lambda>h x. snd (spec_step model x h)) hidden xs)"
  using assms(2)
proof (induction xs arbitrary: hidden)
  case Nil
  show ?case by simp
next
  case (Cons x xs)
  then have "length x = input_size model" by simp
  from forward_step [OF gru_shape this] Cons show ?case by simp
qed

lemma prime_seed:
  assumes gru_shape: "\<And>x h. map length (fst (gru model x h)) = map length x"
    and "input_size model = vocab_size ds"
  shows "prime model (map (spec_one_hot ds) seed) hidden = Inr (spec_prime model ds seed hidden)"
proof -
  have "\<forall>x\<in>set (map (spec_one_hot ds) seed). length x = input_size model"
    using assms(2) by (simp add: length_spec_one_hot)
  from prime_fold [OF gru_shape this]
  show ?thesis by (simp add: spec_prime_def foldl_map)
qed

lemma length_softmax: "length (softmax v) = length v"
  by (simp add: softmax_def)

lemma encode_one_char:
  assumes "TweetDataset_init tweets sl = Inr ds" and "c \<in> set (chars ds)"
  shows "\<exists>v. encode_sequence ds [c] = Inr [the (char2int ds c)]
           \<and> one_hot_sequence [the (char2int ds c)] (vocab_size ds) = Inr [v]
           \<and> tensor v = spec_one_hot ds c"
proof -
  from assms(2) have "set [c] \<subseteq> set (chars ds)" by simp
  from encode_in_vocab [OF assms(1) this] one_hot_char [OF assms]
  show ?thesis by (auto simp: one_hot_sequence_def)
qed

lemma sample_loop_Suc:
  assumes init: "TweetDataset_init tweets sl = Inr ds"
    and in_sz: "input_size model = vocab_size ds"
    and out_sz: "output_size model = vocab_size ds"
    and gru_shape: "\<And>x h. map length (fst (gru model x h)) = map length x"
    and fc_shape: "\<And>v. length (fc model v) = output_size model"
    and sampler: "\<forall>d r. d \<noteq> [] \<longrightarrow> (\<exists>i r'. multinomial d r = Inr (i, r') \<and> i < length d)"
    and c: "c \<in> set (chars ds)"
  shows "\<exists>i rng'.
           multinomial (softmax (fst (spec_step model (spec_one_hot ds c) hidden))) rng
             = Inr (i, rng')
         \<and> i < vocab_size ds \<and> int2char ds i = Some (chars ds ! i)
         \<and> sample_loop model ds multinomial (Suc k) (spec_one_hot ds c) hidden res rng
             = sample_loop model ds multinomial k (spec_one_hot ds (chars ds ! i))
                 (snd (spec_step model (spec_one_hot ds c) hidden)) (res @ [chars ds ! i]) rng'"
proof -
  let ?st = "spec_step model (spec_one_hot ds c) hidden"
  let ?dist = "softmax (fst ?st)"
  have len_in: "length (spec_one_hot ds c) = input_size model"
    by (simp add: length_spec_one_hot in_sz)
  note fw = forward_step [OF gru_shape len_in, of hidden]
  from c have "0 < length (chars ds)" by (cases "chars ds") auto
  then have pos: "0 < vocab_size ds" by (simp add: init_fields(2) [OF init])
  have "length ?dist = vocab_size ds"
    by (simp add: length_softmax length_spec_step [OF fc_shape] out_sz)
  with pos have ne: "?dist \<noteq> []" by auto
  from sampler ne obtain i rng' where
    draw: "multinomial ?dist rng = Inr (i, rng')" and "i < length ?dist" by blast
  with \<open>length ?dist = vocab_size ds\<close> have i: "i < vocab_size ds" by simp
  then have look: "int2char ds i = Some (chars ds ! i)" by (simp add: ds_int2char [OF init])
  from i have "chars ds ! i \<in> set (chars ds)" by (simp add: init_fields(2) [OF init])
  from encode_one_char [OF init this] obtain v where
    enc: "encode_sequence ds [chars ds ! i] = Inr [the (char2int ds (chars ds ! i))]" and
    oh: "one_hot_sequence [the (char2int ds (chars ds ! i))] (vocab_size ds) = Inr [v]" and
    tv: "tensor v = spec_one_hot ds (chars ds ! i)" by blast
  have "sample_loop model ds multinomial (Suc k) (spec_one_hot ds c) hidden res rng
      = sample_loop model ds multinomial k (spec_one_hot ds (chars ds ! i))
          (snd ?st) (res @ [chars ds ! i]) rng'"
    by (simp add: fw draw look lookup_int_def enc oh tv)
  with draw i look show ?thesis by blast
qed

lemma sample_loop_ok:
  assumes init: "TweetDataset_init tweets sl = Inr ds"
    and in_sz: "input_size model = vocab_size ds"
    and out_sz: "output_size model = vocab_size ds"
    and gru_shape: "\<And>x h. map length (fst (gru model x h)) = map length x"
    and fc_shape: "\<And>v. length (fc model v) = output_size model"
    and sampler: "\<forall>d r. d \<noteq> [] \<longrightarrow> (\<exists>i r'. multinomial d r = Inr (i, r') \<and> i < length d)"
    and c: "c \<in> set (chars ds)"
  shows "\<exists>out rng'.
           sample_loop model ds multinomial k (spec_one_hot ds c) hidden res rng
             = (Inr (res @ out), rng')
         \<and> length out = k \<and> set out \<subseteq> set (chars ds)"
  using c
proof (induction k arbitrary: c hidden res rng)
  case 0
  show ?case by simp
next
  case (Suc k)
  from sample_loop_Suc [OF init in_sz out_sz gru_shape fc_shape sampler Suc.prems,
      where hidden = hidden and rng = rng and k = k and res = res]
  obtain i rng' where i: "i < vocab_size ds" and
    step: "sample_loop model ds multinomial (Suc k) (spec_one_hot ds c) hidden res rng
             = sample_loop model ds multinomial k (spec_one_hot ds (chars ds ! i))
                 (snd (spec_step model (spec_one_hot ds c) hidden)) (res @ [chars ds ! i]) rng'"
    by blast
  from i have mem: "chars ds ! i \<in> set (chars ds)" by (simp add: init_fields(2) [OF init])
  from Suc.IH [OF mem, of "snd (spec_step model (spec_one_hot ds c) hidden)"
      "res @ [chars ds ! i]" rng']
  obtain out rng'' where
    "sample_loop model ds multinomial k (spec_one_hot ds (chars ds ! i))
       (snd (spec_step model (spec_one_hot ds c) hidden)) (res @ [chars ds ! i]) rng'
     = (Inr ((res @ [chars ds ! i]) @ out), rng'')"
    "length out = k" "set out \<subseteq> set (chars ds)" by blast
  with step mem have
    "sample_loop model ds multinomial (Suc k) (spec_one_hot ds c) hidden res rng
       = (Inr (res @ (chars ds ! i # out)), rng'')
     \<and> length (chars ds ! i # out) = Suc k \<and> set (chars ds ! i # out) \<subseteq> set (chars ds)"
    by simp
  then show ?case by blast
qed

lemma sample_loop_spec:
  assumes init: "TweetDataset_init tweets sl = Inr ds"
    and in_sz: "input_size model = vocab_size ds"
    and out_sz: "output_size model = vocab_size ds"
    and gru_shape: "\<And>x h. map length (fst (gru model x h)) = map length x"
    and fc_shape: "\<And>v. length (fc model v) = output_size model"
    and sampler: "\<forall>d r. d \<noteq> [] \<longrightarrow> (\<exists>i r'. multinomial d r = Inr (i, r') \<and> i < length d)"
    and c: "c \<in> set (chars ds)"
  shows "sample_loop model ds multinomial k (spec_one_hot ds c) hidden res rng
           = (Inr (res @ fst (spec_sample model ds multinomial k c hidden rng)),
              snd (spec_sample model ds multinomial k c hidden rng))"
  using c
proof (induction k arbitrary: c hidden res rng)
  case 0
  show ?case by simp
next
  case (Suc k)
  from sample_loop_Suc [OF init in_sz out_sz gru_shape fc_shape sampler Suc.prems,
      where hidden = hidden and rng = rng and k = k and res = res]
  obtain i rng' where i: "i < vocab_size ds" and
    draw: "multinomial (softmax (fst (spec_step model (spec_one_hot ds c) hidden))) rng
             = Inr (i, rng')" and
    look: "int2char ds i = Some (chars ds ! i)" and
    step: "sample_loop model ds multinomial (Suc k) (spec_one_hot ds c) hidden res rng
             = sample_loop model ds multinomial k (spec_one_hot ds (chars ds ! i))
                 (snd (spec_step model (spec_one_hot ds c) hidden)) (res @ [chars ds ! i]) rng'"
    by blast
  from i have mem: "chars ds ! i \<in> set (chars ds)" by (simp add: init_fields(2) [OF init])
  have "spec_sample model ds multinomial (Suc k) c hidden rng
      = (chars ds ! i #
           fst (spec_sample model ds multinomial k (chars ds ! i)
                  (snd (spec_step model (spec_one_hot ds c) hidden)) rng'),
         snd (spec_sample model ds multinomial k (chars ds ! i)
                  (snd (spec_step model (spec_one_hot ds c) hidden)) rng'))"
    by (simp add: draw look case_prod_unfold Let_def)
  with step Suc.IH [OF mem] show ?case by simp
qed

lemma generate_phases:
  assumes init: "TweetDataset_init tweets sl = Inr ds"
    and ne: "seed \<noteq> []" and seed: "set seed \<subseteq> set (chars ds)"
    and in_sz: "input_size model = vocab_size ds"
    and gru_shape: "\<And>x h. map length (fst (gru model x h)) = map length x"
  shows "generate model ds multinomial seed n rng
           = sample_loop model ds multinomial (nat n) (spec_one_hot ds (last seed))
               (spec_prime model ds seed (init_hidden model 1)) [] rng"
proof -
  note enc = encode_in_vocab [OF init seed]
  from one_hot_seq [OF init seed] obtain vecs where
    oh: "one_hot_sequence (map (\<lambda>c. the (char2int ds c)) seed) (vocab_size ds) = Inr vecs" and
    tv: "map tensor vecs = map (spec_one_hot ds) seed" by blast
  note pr = prime_seed [OF gru_shape in_sz, of seed "init_hidden model 1"]
  from ne have "last (map (spec_one_hot ds) seed) = spec_one_hot ds (last seed)"
    by (simp add: last_map)
  with ne show ?thesis by (simp add: generate_def enc oh tv pr Let_def del: One_nat_def)
qed

lemma generate_unknown:
  assumes "TweetDataset_init tweets sl = Inr ds"
    and "set pre \<subseteq> set (chars ds)" and "c \<notin> set (chars ds)"
  shows "generate model ds multinomial (pre @ c # post) n rng = (Inl (KeyError (CharKey c)), rng)"
  by (simp add: generate_def encode_first_unknown [OF assms])

lemma spec_sample_Suc:
  assumes "multinomial (softmax (fst (spec_step model (spec_one_hot ds c) hidden))) rng
             = Inr (i, rng')"
    and "int2char ds i = Some ch"
  shows "spec_sample model ds multinomial (Suc k) c hidden rng
      = (ch # fst (spec_sample model ds multinomial k ch
                     (snd (spec_step model (spec_one_hot ds c) hidden)) rng'),
         snd (spec_sample model ds multinomial k ch
                     (snd (spec_step model (spec_one_hot ds c) hidden)) rng'))"
  by (simp add: assms case_prod_unfold Let_def)

lemma length_spec_sample:
  "length (fst (spec_sample model ds multinomial N c hidden rng)) = N"
  by (induction N arbitrary: c hidden rng) (simp_all add: case_prod_unfold Let_def)

lemma spec_sample_draws:
  assumes init: "TweetDataset_init tweets sl = Inr ds"
    and in_sz: "input_size model = vocab_size ds"
    and out_sz: "output_size model = vocab_size ds"
    and gru_shape: "\<And>x h. map length (fst (gru model x h)) = map length x"
    and fc_shape: "\<And>v. length (fc model v) = output_size model"
    and sampler: "\<forall>d r. d \<noteq> [] \<longrightarrow> (\<exists>i r'. multinomial d r = Inr (i, r') \<and> i < length d)"
    and c: "c \<in> set (chars ds)"
  shows "\<forall>k<N. \<exists>d r i r'. multinomial d r = Inr (i, r') \<and> i < vocab_size ds
           \<and> int2char ds i = Some (fst (spec_sample model ds multinomial N c hidden rng) ! k)"
  using c
proof (induction N arbitrary: c hidden rng)
  case 0
  show ?case by simp
next
  case (Suc N)
  from sample_loop_Suc [OF init in_sz out_sz gru_shape fc_shape sampler Suc.prems,
      where hidden = hidden and rng = rng and k = N and res = "[]"]
  obtain i rng' where i: "i < vocab_size ds" and
    draw: "multinomial (softmax (fst (spec_step model (spec_one_hot ds c) hidden))) rng
             = Inr (i, rng')" and
    look: "int2char ds i = Some (chars ds ! i)"
    by blast
  from i have mem: "chars ds ! i \<in> set (chars ds)" by (simp add: init_fields(2) [OF init])
  have unf: "spec_sample model ds multinomial (Suc N) c hidden rng
      = (chars ds ! i # fst (spec_sample model ds multinomial N (chars ds ! i)
                     (snd (spec_step model (spec_one_hot ds c) hidden)) rng'),
         snd (spec_sample model ds multinomial N (chars ds ! i)
                     (snd (spec_step model (spec_one_hot ds c) hidden)) rng'))"
    using draw look by (rule spec_sample_Suc)
  note IH = Suc.IH [OF mem, of "snd (spec_step model (spec_one_hot ds c) hidden)" rng']
  show ?case
  proof (intro allI impI)
    fix k assume k: "k < Suc N"
    show "\<exists>d r i r'. multinomial d r = Inr (i, r') \<and> i < vocab_size ds
           \<and> int2char ds i = Some (fst (spec_sample model ds multinomial (Suc N) c hidden rng) ! k)"
    proof (cases k)
      case 0
      with draw i look show ?thesis unfolding unf by auto
    next
      case (Suc k')
      with k have "k' < N" by simp
      with IH Suc show ?thesis unfolding unf by simp
    qed
  qed
qed

lemma generate_zero:
  assumes init: "TweetDataset_init tweets sl = Inr ds"
    and ne: "seed \<noteq> []" and seed: "set seed \<subseteq> set (chars ds)"
  shows "generate m ds multinomial seed 0 rng =
           (case prime m (map (spec_one_hot ds) seed) (init_hidden m 1) of
              Inl e \<Rightarrow> (Inl e, rng)
            | Inr h \<Rightarrow> (Inr [], rng))"
proof -
  note enc = encode_in_vocab [OF init seed]
  from one_hot_seq [OF init seed] obtain vecs where
    oh: "one_hot_sequence (map (\<lambda>c. the (char2int ds c)) seed) (vocab_size ds) = Inr vecs" and
    tv: "map tensor vecs = map (spec_one_hot ds) seed" by blast
  from ne show ?thesis
    by (simp add: generate_def enc oh tv Let_def split: sum.splits del: One_nat_def)
qed

lemma generate_size_mismatch:
  assumes init: "TweetDataset_init tweets sl = Inr ds"
    and ne: "seed \<noteq> []" and seed: "set seed \<subseteq> set (chars ds)"
    and in_sz: "input_size model \<noteq> vocab_size ds"
  shows "generate model ds multinomial seed n rng = (Inl RuntimeError, rng)"
proof -
  note enc = encode_in_vocab [OF init seed]
  from one_hot_seq [OF init seed] obtain vecs where
    oh: "one_hot_sequence (map (\<lambda>c. the (char2int ds c)) seed) (vocab_size ds) = Inr vecs" and
    tv: "map tensor vecs = map (spec_one_hot ds) seed" by blast
  from ne obtain c cs where "seed = c # cs" by (cases seed) auto
  then have "prime model (map (spec_one_hot ds) seed) (init_hidden model 1) = Inl RuntimeError"
    using in_sz by (simp add: forward_def length_spec_one_hot)
  then show ?thesis by (simp add: generate_def enc oh tv Let_def del: One_nat_def)
qed


text \<open>The example model and sampler, evaluated.\<close>

lemma example_int2char: "int2char example_dataset = dict_of (enumerate 0 ''ehlow'')"
  using init_fields(3) [OF example_init] by (simp only: example_fields)

lemma example_char2int:
  "char2int example_dataset = dict_of (map (\<lambda>(i, c). (c, i)) (enumerate 0 ''ehlow''))"
  using init_fields(4) [OF example_init] by (simp only: example_fields)

lemma flat_sizes:
  "input_size flat_model = vocab_size example_dataset"
  "output_size flat_model = vocab_size example_dataset"
  by (simp_all add: flat_model_def example_fields)

lemma flat_gru_shape: "map length (fst (gru flat_model x h)) = map length x"
  by (simp add: flat_model_def flat_gru_def comp_def)

lemma flat_fc_shape: "length (fc flat_model v) = output_size flat_model"
  by (simp add: flat_model_def flat_fc_def)

lemma first_sampler_range:
  "\<forall>d r. d \<noteq> [] \<longrightarrow> (\<exists>i r'. first_sampler d r = Inr (i, r') \<and> i < length d)"
  by (simp add: first_sampler_def)

lemma example_seed: "''he'' \<noteq> []" "set ''he'' \<subseteq> set (chars example_dataset)"
  by (simp_all add: example_fields)

lemma forward_flat:
  "forward flat_model [[x]] h = (if length x \<noteq> 5 then Inl RuntimeError else Inr ([replicate 5 0], h))"
  by (simp add: forward_def flat_model_def flat_gru_def flat_fc_def)

lemma softmax_flat: "softmax (replicate 5 0) = replicate 5 (1 / 5)"
  by (simp add: softmax_def sum_list_replicate)

lemma generate_example:
  "generate flat_model example_dataset first_sampler ''he'' 2 0 = (Inr ''ee'', 2)"
  by (simp add: generate_def encode_sequence_def one_hot_sequence_def one_hot_def
      lookup_char_def lookup_int_def example_char2int example_int2char dict_of_def
      example_fields tensor_def forward_flat softmax_flat first_sampler_def
      init_hidden_def numeral_2_eq_2 Let_def)

lemma other_seed: "''lo'' \<noteq> []" "set ''lo'' \<subseteq> set (chars example_dataset)"
  by (simp_all add: example_fields)

lemma generate_example_lo:
  "generate flat_model example_dataset first_sampler ''lo'' 2 0 = (Inr ''ee'', 2)"
  by (simp add: generate_def encode_sequence_def one_hot_sequence_def one_hot_def
      lookup_char_def lookup_int_def example_char2int example_int2char dict_of_def
      example_fields tensor_def forward_flat softmax_flat first_sampler_def
      init_hidden_def numeral_2_eq_2 Let_def)

lemma prime_narrow:
  "prime narrow_model (map (spec_one_hot example_dataset) ''lo'') (init_hidden narrow_model 1)
     = Inl RuntimeError"
  by (simp add: forward_def narrow_model_def length_spec_one_hot example_fields)

lemma generate_narrow:
  "generate narrow_model example_dataset first_sampler ''he'' 2 0 = (Inl RuntimeError, 0)"
  by (simp add: generate_def encode_sequence_def one_hot_sequence_def one_hot_def
      lookup_char_def example_char2int dict_of_def
      example_fields tensor_def forward_def narrow_model_def
      init_hidden_def Let_def)

text \<open>
  Claim C2, amended. For every model built with input and output size equal to the
  vocabulary size, every non-empty seed made of vocabulary characters only and every
  length \<open>N \<ge> 0\<close>, \<open>generate\<close> returns a string of exactly \<open>N\<close> sampled characters
  that does not include the seed: the string and the final generator state are those of
  the \<open>N\<close> sampling iterations started from the last seed character and the hidden state
  primed on the whole seed, with the empty string as the initial result, and every
  character of the string is the character of an index that the sampler returned.
  \<open>generate(seed, 0)\<close> returns the empty string without error and without a draw, and
  priming still occurs: for any model whatever, the result at \<open>N = 0\<close> is the exception
  of the priming loop when that loop raises, and the empty string otherwise. The
  library's contracts are hypotheses: the recurrent layer keeps the batch and step
  dimensions, the linear layer returns \<open>output_size\<close> numbers, and the sampler returns an
  index of the distribution it is given.
\<close>

theorem generate_length:
  assumes "TweetDataset_init tweets sl = Inr ds"
    and "seed \<noteq> []" and "set seed \<subseteq> set (chars ds)"
    and "input_size model = vocab_size ds"
    and "output_size model = vocab_size ds"
    and "\<And>x h. map length (fst (gru model x h)) = map length x"
    and "\<And>v. length (fc model v) = output_size model"
    and "\<forall>d r. d \<noteq> [] \<longrightarrow> (\<exists>i r'. multinomial d r = Inr (i, r') \<and> i < length d)"
  shows "(\<exists>res rng'. generate model ds multinomial seed (int N) rng = (Inr res, rng')
            \<and> length res = N
            \<and> (res, rng') = spec_sample model ds multinomial N (last seed)
                               (spec_prime model ds seed (init_hidden model 1)) rng
            \<and> (\<forall>k<N. \<exists>d r i r'. multinomial d r = Inr (i, r') \<and> i < vocab_size ds
                        \<and> int2char ds i = Some (res ! k)))
       \<and> generate model ds multinomial seed 0 rng = (Inr [], rng)
       \<and> (\<forall>m. generate m ds multinomial seed 0 rng =
              (case prime m (map (spec_one_hot ds) seed) (init_hidden m 1) of
                 Inl e \<Rightarrow> (Inl e, rng)
               | Inr h \<Rightarrow> (Inr [], rng)))"
proof (intro conjI)
  let ?sp = "spec_sample model ds multinomial N (last seed)
               (spec_prime model ds seed (init_hidden model 1)) rng"
  from assms(2,3) have l: "last seed \<in> set (chars ds)" by auto
  from sample_loop_spec [OF assms(1,4,5,6,7,8) l, where k = N and res = "[]" and rng = rng
      and hidden = "spec_prime model ds seed (init_hidden model 1)"]
  have g: "generate model ds multinomial seed (int N) rng = (Inr (fst ?sp), snd ?sp)"
    by (simp add: generate_phases [OF assms(1,2,3,4,6)])
  have len: "length (fst ?sp) = N" by (rule length_spec_sample)
  note dr = spec_sample_draws [OF assms(1,4,5,6,7,8) l, of N
      "spec_prime model ds seed (init_hidden model 1)" rng]
  from g len dr
  show "\<exists>res rng'. generate model ds multinomial seed (int N) rng = (Inr res, rng')
            \<and> length res = N
            \<and> (res, rng') = spec_sample model ds multinomial N (last seed)
                               (spec_prime model ds seed (init_hidden model 1)) rng
            \<and> (\<forall>k<N. \<exists>d r i r'. multinomial d r = Inr (i, r') \<and> i < vocab_size ds
                        \<and> int2char ds i = Some (res ! k))"
    by (intro exI [of _ "fst ?sp"] exI [of _ "snd ?sp"]) simp
  show "generate model ds multinomial seed 0 rng = (Inr [], rng)"
    by (simp add: generate_phases [OF assms(1,2,3,4,6)])
  show "\<forall>m. generate m ds multinomial seed 0 rng =
              (case prime m (map (spec_one_hot ds) seed) (init_hidden m 1) of
                 Inl e \<Rightarrow> (Inl e, rng)
               | Inr h \<Rightarrow> (Inr [], rng))"
    by (intro allI) (rule generate_zero [OF assms(1,2,3)])
qed

theorem generate_length_witness:
  "TweetDataset_init example_tweets 4 = Inr example_dataset
   \<and> ''lo'' \<noteq> [] \<and> set ''lo'' \<subseteq> set (chars example_dataset)
   \<and> input_size flat_model = vocab_size example_dataset
   \<and> output_size flat_model = vocab_size example_dataset
   \<and> generate flat_model example_dataset first_sampler ''lo'' (int 2) 0 = (Inr ''ee'', 2)
   \<and> length ''ee'' = 2
   \<and> (''ee'', 2) = spec_sample flat_model example_dataset first_sampler 2 (last ''lo'')
                      (spec_prime flat_model example_dataset ''lo'' (init_hidden flat_model 1)) 0
   \<and> (0::nat) < 2
   \<and> (\<exists>d r i r'. first_sampler d r = Inr (i, r') \<and> i < vocab_size example_dataset
          \<and> int2char example_dataset i = Some (''ee'' ! 0))
   \<and> generate flat_model example_dataset first_sampler ''lo'' 0 0 = (Inr [], 0)
   \<and> generate narrow_model example_dataset first_sampler ''lo'' 0 0 = (Inl RuntimeError, 0)"
proof -
  note t = generate_length [OF example_init other_seed flat_sizes flat_gru_shape
      flat_fc_shape first_sampler_range, of 2 0]
  have g: "generate flat_model example_dataset first_sampler ''lo'' (int 2) 0 = (Inr ''ee'', 2)"
    using generate_example_lo by simp
  from t obtain res rng' where
    r: "generate flat_model example_dataset first_sampler ''lo'' (int 2) 0 = (Inr res, rng')" and
    len: "length res = 2" and
    sp: "(res, rng') = spec_sample flat_model example_dataset first_sampler 2 (last ''lo'')
                      (spec_prime flat_model example_dataset ''lo'' (init_hidden flat_model 1)) 0" and
    dr: "\<forall>k<2. \<exists>d r i r'. first_sampler d r = Inr (i, r') \<and> i < vocab_size example_dataset
          \<and> int2char example_dataset i = Some (res ! k)" by blast
  from r g have res: "res = ''ee''" "rng' = 2" by simp_all
  from len have len': "length ''ee'' = 2" by simp
  note sp' = sp [unfolded res]
  have two: "(0::nat) < 2" by simp
  from dr two have dr': "\<exists>d r i r'. first_sampler d r = Inr (i, r') \<and> i < vocab_size example_dataset
          \<and> int2char example_dataset i = Some (''ee'' ! 0)" unfolding res by blast
  from t have zero: "generate flat_model example_dataset first_sampler ''lo'' 0 0 = (Inr [], 0)"
    by blast
  from t have "\<forall>m. generate m example_dataset first_sampler ''lo'' 0 0 =
              (case prime m (map (spec_one_hot example_dataset) ''lo'') (init_hidden m 1) of
                 Inl e \<Rightarrow> (Inl e, 0)
               | Inr h \<Rightarrow> (Inr [], 0))" by blast
  then have "generate narrow_model example_dataset first_sampler ''lo'' 0 0 =
              (case prime narrow_model (map (spec_one_hot example_dataset) ''lo'')
                      (init_hidden narrow_model 1) of
                 Inl e \<Rightarrow> (Inl e, 0)
               | Inr h \<Rightarrow> (Inr [], 0))" by (rule spec)
  then have nar: "generate narrow_model example_dataset first_sampler ''lo'' 0 0
      = (Inl RuntimeError, 0)" by (simp only: prime_narrow sum.case)
  show ?thesis
    by (intro conjI) (fact example_init other_seed flat_sizes g len' sp' two dr' zero nar)+
qed

text \<open>
  Claim C2 as stated fails on the empty seed, a string made of vocabulary characters
  only: the seed tensor is empty and \<open>start[-1]\<close> raises IndexError, for \<open>N = 0\<close> too.
\<close>

theorem generate_empty_seed:
  "generate flat_model example_dataset first_sampler [] 0 0 = (Inl IndexError, 0)
   \<and> generate flat_model example_dataset first_sampler [] 3 0 = (Inl IndexError, 0)"
  by (simp add: generate_def encode_sequence_def one_hot_sequence_def)

text \<open>
  Claim C3. \<open>generate\<close> computes what the specification's Generator computes: priming
  feeds the one-hot vector of every seed character through the model, one step each,
  keeping only the hidden state; sampling starts from the last seed character and runs
  \<open>N\<close> iterations of one model step, softmax, one draw, the decoded character appended
  and re-encoded as the next input. Result and generator state are those of
  \<open>spec_generate\<close>.
\<close>

theorem generate_refines_spec:
  assumes "TweetDataset_init tweets sl = Inr ds"
    and "seed \<noteq> []" and "set seed \<subseteq> set (chars ds)"
    and "input_size model = vocab_size ds"
    and "output_size model = vocab_size ds"
    and "\<And>x h. map length (fst (gru model x h)) = map length x"
    and "\<And>v. length (fc model v) = output_size model"
    and "\<forall>d r. d \<noteq> [] \<longrightarrow> (\<exists>i r'. multinomial d r = Inr (i, r') \<and> i < length d)"
  shows "generate model ds multinomial seed (int N) rng
           = (Inr (fst (spec_generate model ds multinomial seed N rng)),
              snd (spec_generate model ds multinomial seed N rng))"
proof -
  from assms(2,3) have l: "last seed \<in> set (chars ds)" by auto
  from sample_loop_spec [OF assms(1,4,5,6,7,8) l, where k = N and res = "[]" and rng = rng
      and hidden = "spec_prime model ds seed (init_hidden model 1)"]
  show ?thesis
    by (simp add: generate_phases [OF assms(1,2,3,4,6)] spec_generate_def)
qed

theorem generate_refines_spec_witness:
  "TweetDataset_init example_tweets 4 = Inr example_dataset
   \<and> ''he'' \<noteq> [] \<and> set ''he'' \<subseteq> set (chars example_dataset)
   \<and> input_size flat_model = vocab_size example_dataset
   \<and> output_size flat_model = vocab_size example_dataset
   \<and> generate flat_model example_dataset first_sampler ''he'' (int 2) 0 = (Inr ''ee'', 2)
   \<and> spec_generate flat_model example_dataset first_sampler ''he'' 2 0 = (''ee'', 2)"
proof -
  note t = generate_refines_spec [OF example_init example_seed flat_sizes flat_gru_shape
      flat_fc_shape first_sampler_range, of 2 0]
  have g: "generate flat_model example_dataset first_sampler ''he'' (int 2) 0 = (Inr ''ee'', 2)"
    using generate_example by simp
  with t have "fst (spec_generate flat_model example_dataset first_sampler ''he'' 2 0) = ''ee''"
    "snd (spec_generate flat_model example_dataset first_sampler ''he'' 2 0) = 2" by simp_all
  then have sp: "spec_generate flat_model example_dataset first_sampler ''he'' 2 0 = (''ee'', 2)"
    by (simp add: prod_eq_iff)
  show ?thesis
    by (intro conjI) (fact example_init example_seed flat_sizes g sp)+
qed

text \<open>
  Claim C8. Encoding a sequence with a character that is not in the vocabulary raises
  KeyError on the first such character (the lookup \<open>char2int[c]\<close>; this is the
  specification's UnknownCharacter condition), and no index is substituted. \<open>generate\<close>
  with such a seed raises the same error, whatever the model and the sampler are, and
  returns the random generator's state as it received it: nothing was sampled.
\<close>

theorem unknown_character:
  assumes "TweetDataset_init tweets sl = Inr ds" and "\<not> set s \<subseteq> set (chars ds)"
  shows "\<exists>pre c post. s = pre @ c # post \<and> set pre \<subseteq> set (chars ds) \<and> c \<notin> set (chars ds)
           \<and> encode_sequence ds s = Inl (KeyError (CharKey c))
           \<and> generate model ds multinomial s n rng = (Inl (KeyError (CharKey c)), rng)"
proof -
  from first_unknown_split [OF assms(2)] obtain pre c post where
    s: "s = pre @ c # post" and p: "set pre \<subseteq> set (chars ds)" and c: "c \<notin> set (chars ds)"
    by blast
  from encode_first_unknown [OF assms(1) p c, of post]
    generate_unknown [OF assms(1) p c, of model multinomial post n rng] s p c
  show ?thesis by blast
qed

theorem unknown_character_witness:
  "TweetDataset_init example_tweets 4 = Inr example_dataset
   \<and> \<not> set ''help'' \<subseteq> set (chars example_dataset)
   \<and> encode_sequence example_dataset ''help'' = Inl (KeyError (CharKey CHR ''p''))
   \<and> generate flat_model example_dataset first_sampler ''help'' 3 0
        = (Inl (KeyError (CharKey CHR ''p'')), 0)"
proof -
  have n: "\<not> set ''help'' \<subseteq> set (chars example_dataset)" by (simp add: example_fields)
  from unknown_character [OF example_init n, of flat_model first_sampler 3 0]
  obtain pre c post where s: "''help'' = pre @ c # post"
    and c: "c \<notin> set (chars example_dataset)"
    and e: "encode_sequence example_dataset ''help'' = Inl (KeyError (CharKey c))"
    and g: "generate flat_model example_dataset first_sampler ''help'' 3 0
              = (Inl (KeyError (CharKey c)), 0)" by blast
  from s have "c \<in> set ''help''" by (metis in_set_conv_decomp)
  with c have "c = CHR ''p''" by (simp add: example_fields)
  with e g n example_init show ?thesis by simp
qed

text \<open>
  Claim C10. For every model whose output size is the vocabulary size and every
  non-empty seed of vocabulary characters: when the input size is the vocabulary size
  too (the model of the notebook), \<open>generate\<close> returns a string, so neither the lookup
  \<open>int2char[top]\<close> nor the re-encoding of a sampled character raised, and every
  character of the string is the character of an index below \<open>vocab_size\<close>, hence of
  the vocabulary; with any other input size the recurrent layer rejects the first seed
  vector, before any lookup. The library's contracts are hypotheses, as for C2.
\<close>

theorem generate_in_vocabulary:
  assumes "TweetDataset_init tweets sl = Inr ds"
    and "seed \<noteq> []" and "set seed \<subseteq> set (chars ds)"
    and "output_size model = vocab_size ds"
    and "\<And>x h. map length (fst (gru model x h)) = map length x"
    and "\<And>v. length (fc model v) = output_size model"
    and "\<forall>d r. d \<noteq> [] \<longrightarrow> (\<exists>i r'. multinomial d r = Inr (i, r') \<and> i < length d)"
  shows "(input_size model = vocab_size ds \<longrightarrow>
            (\<exists>res rng'. generate model ds multinomial seed n rng = (Inr res, rng')
               \<and> set res \<subseteq> set (chars ds)
               \<and> (\<forall>c\<in>set res. \<exists>i<vocab_size ds.
                      int2char ds i = Some c \<and> char2int ds c = Some i)))
       \<and> (input_size model \<noteq> vocab_size ds \<longrightarrow>
            generate model ds multinomial seed n rng = (Inl RuntimeError, rng))"
proof (intro conjI impI)
  assume in_sz: "input_size model = vocab_size ds"
  from assms(2,3) have l: "last seed \<in> set (chars ds)" by auto
  from sample_loop_ok [OF assms(1) in_sz assms(4,5,6,7) l, where k = "nat n" and res = "[]"
      and rng = rng and hidden = "spec_prime model ds seed (init_hidden model 1)"]
  obtain res rng' where r: "generate model ds multinomial seed n rng = (Inr res, rng')"
    and sub: "set res \<subseteq> set (chars ds)"
    by (auto simp: generate_phases [OF assms(1,2,3) in_sz assms(5)])
  have "\<exists>i<vocab_size ds. int2char ds i = Some c \<and> char2int ds c = Some i" if "c \<in> set res" for c
  proof -
    from that sub have "c \<in> set (chars ds)" by auto
    from ds_char2int_in [OF assms(1) this] show ?thesis
      by (auto simp: ds_int2char [OF assms(1)])
  qed
  with r sub show "\<exists>res rng'. generate model ds multinomial seed n rng = (Inr res, rng')
      \<and> set res \<subseteq> set (chars ds)
      \<and> (\<forall>c\<in>set res. \<exists>i<vocab_size ds. int2char ds i = Some c \<and> char2int ds c = Some i)"
    by blast
next
  assume "input_size model \<noteq> vocab_size ds"
  from generate_size_mismatch [OF assms(1,2,3) this]
  show "generate model ds multinomial seed n rng = (Inl RuntimeError, rng)" .
qed

theorem generate_in_vocabulary_witness:
  "TweetDataset_init example_tweets 4 = Inr example_dataset
   \<and> ''he'' \<noteq> [] \<and> set ''he'' \<subseteq> set (chars example_dataset)
   \<and> output_size flat_model = vocab_size example_dataset
   \<and> input_size flat_model = vocab_size example_dataset
   \<and> generate flat_model example_dataset first_sampler ''he'' 2 0 = (Inr ''ee'', 2)
   \<and> set ''ee'' \<subseteq> set (chars example_dataset)
   \<and> CHR ''e'' \<in> set ''ee''
   \<and> (\<exists>i<vocab_size example_dataset. int2char example_dataset i = Some CHR ''e''
         \<and> char2int example_dataset CHR ''e'' = Some i)
   \<and> output_size narrow_model = vocab_size example_dataset
   \<and> input_size narrow_model \<noteq> vocab_size example_dataset
   \<and> generate narrow_model example_dataset first_sampler ''he'' 2 0 = (Inl RuntimeError, 0)"
proof -
  note t = generate_in_vocabulary [OF example_init example_seed flat_sizes(2) flat_gru_shape
      flat_fc_shape first_sampler_range, of 2 0]
  from t flat_sizes(1) obtain res rng' where
    r: "generate flat_model example_dataset first_sampler ''he'' 2 0 = (Inr res, rng')" and
    sub: "set res \<subseteq> set (chars example_dataset)" and
    idx: "\<forall>c\<in>set res. \<exists>i<vocab_size example_dataset. int2char example_dataset i = Some c
            \<and> char2int example_dataset c = Some i" by blast
  from r have res: "res = ''ee''" by (simp add: generate_example)
  have mem: "CHR ''e'' \<in> set ''ee''" by simp
  from sub have s: "set ''ee'' \<subseteq> set (chars example_dataset)" unfolding res .
  from idx mem have i: "\<exists>i<vocab_size example_dataset. int2char example_dataset i = Some CHR ''e''
         \<and> char2int example_dataset CHR ''e'' = Some i" unfolding res by (rule bspec)
  have no: "output_size narrow_model = vocab_size example_dataset"
    by (simp add: narrow_model_def example_fields)
  have ni: "input_size narrow_model \<noteq> vocab_size example_dataset"
    by (simp add: narrow_model_def example_fields)
  have ng: "map length (fst (gru narrow_model x h)) = map length x" for x h
    by (simp add: narrow_model_def flat_gru_def comp_def)
  have nf: "length (fc narrow_model v) = output_size narrow_model" for v
    by (simp add: narrow_model_def flat_fc_def)
  from generate_in_vocabulary [OF example_init example_seed no ng nf first_sampler_range,
      of 2 0] ni
  have nr: "generate narrow_model example_dataset first_sampler ''he'' 2 0 = (Inl RuntimeError, 0)"
    by blast
  show ?thesis
    by (intro conjI)
       (fact example_init example_seed flat_sizes generate_example s mem i no ni nr)+
qed

subsection \<open>The Trainer\<close>

lemma forward_example_batch:
  "forward flat_model (replicate 32 [[0, 1, 0, 0, 0]]) h = Inr (replicate 32 (replicate 5 0), h)"
proof -
  have "\<not> list_ex (\<lambda>row. length row \<noteq> 5) (concat (replicate 32 [[0, 1, 0, 0, 0 :: real]]))"
    by (simp add: list_ex_iff)
  moreover have "concat (replicate n [v :: real list]) = replicate n v" for n v
    by (induction n) simp_all
  ultimately show ?thesis
    by (simp add: forward_def flat_model_def flat_gru_def flat_fc_def)
qed

text \<open>
  Claim C4 does not hold of the code. The claim is that the number reported for an epoch
  is the accumulated loss divided by the number of batches processed. \<open>train\<close> divides
  the accumulated loss by \<open>BATCH_SIZE\<close>, the number of samples in one batch: with two
  batches of loss 2 each it prints \<open>(2 + 2) / 32\<close> for the epoch, and the average over
  the two batches is \<open>(2 + 2) / 2\<close>.
\<close>

theorem loss_divided_by_batch_size:
  "train_epoch keep_step const_loss [example_batch, example_batch] 1 () flat_model
     = Inr ([(1, (2 + 2) / 32)], (), flat_model)
   \<and> (2 + 2) / 32 \<noteq> (2 + 2) / real (length [example_batch, example_batch])"
  by (simp add: example_batch_def train_epoch_def forward_example_batch keep_step_def
      const_loss_def BATCH_SIZE_def PRINT_EVERY_def)



end
